theory Spec2Isabelle
  imports Complex_Main
begin

section \<open>Numbers and errors\<close>

text \<open>
  The pricers compute with Python and numpy floats. A float is modelled as an exact real
  (\<open>Fin\<close>) or one of the three IEEE special values, which numpy produces instead of
  raising: a division by zero gives an infinity or \<open>NaN\<close>, the square root of a negative
  number gives \<open>NaN\<close>. The operations of this section are exact on finite numbers;
  rounding and overflow come with the section after it. The sign of zero is not modelled.
\<close>

datatype npfloat = Fin real | PInf | NInf | NaN

text \<open>
  The exceptions of the two engines. \<open>ConfigurationError\<close> is the error kind the
  specification names; no statement of the source raises it.
\<close>

datatype error = ConfigurationError | ZeroDivisionError | IndexError | TypeError | ValueError

definition inf_of_sign :: "real \<Rightarrow> npfloat" where
  "inf_of_sign s = (if s = 0 then NaN else if 0 < s then PInf else NInf)"

fun fneg :: "npfloat \<Rightarrow> npfloat" where
  "fneg (Fin x) = Fin (- x)"
| "fneg PInf = NInf"
| "fneg NInf = PInf"
| "fneg NaN = NaN"

fun fadd :: "npfloat \<Rightarrow> npfloat \<Rightarrow> npfloat" where
  "fadd (Fin x) (Fin y) = Fin (x + y)"
| "fadd NaN y = NaN"
| "fadd x NaN = NaN"
| "fadd PInf NInf = NaN"
| "fadd NInf PInf = NaN"
| "fadd PInf y = PInf"
| "fadd x PInf = PInf"
| "fadd NInf y = NInf"
| "fadd x NInf = NInf"

definition fsub :: "npfloat \<Rightarrow> npfloat \<Rightarrow> npfloat" where
  "fsub x y = fadd x (fneg y)"

fun fmul :: "npfloat \<Rightarrow> npfloat \<Rightarrow> npfloat" where
  "fmul (Fin x) (Fin y) = Fin (x * y)"
| "fmul NaN y = NaN"
| "fmul x NaN = NaN"
| "fmul PInf (Fin y) = inf_of_sign y"
| "fmul NInf (Fin y) = inf_of_sign (- y)"
| "fmul (Fin x) PInf = inf_of_sign x"
| "fmul (Fin x) NInf = inf_of_sign (- x)"
| "fmul PInf PInf = PInf"
| "fmul PInf NInf = NInf"
| "fmul NInf PInf = NInf"
| "fmul NInf NInf = PInf"

text \<open>numpy's true division: a zero divisor gives an infinity or \<open>NaN\<close>, never an exception.\<close>

fun fdiv :: "npfloat \<Rightarrow> npfloat \<Rightarrow> npfloat" where
  "fdiv (Fin x) (Fin y) = (if y = 0 then inf_of_sign x else Fin (x / y))"
| "fdiv NaN y = NaN"
| "fdiv x NaN = NaN"
| "fdiv (Fin x) PInf = Fin 0"
| "fdiv (Fin x) NInf = Fin 0"
| "fdiv PInf (Fin y) = (if 0 \<le> y then PInf else NInf)"
| "fdiv NInf (Fin y) = (if 0 \<le> y then NInf else PInf)"
| "fdiv PInf PInf = NaN"
| "fdiv PInf NInf = NaN"
| "fdiv NInf PInf = NaN"
| "fdiv NInf NInf = NaN"

fun fabs :: "npfloat \<Rightarrow> npfloat" where
  "fabs (Fin x) = Fin \<bar>x\<bar>"
| "fabs PInf = PInf"
| "fabs NInf = PInf"
| "fabs NaN = NaN"

fun fexp :: "npfloat \<Rightarrow> npfloat" where
  "fexp (Fin x) = Fin (exp x)"
| "fexp PInf = PInf"
| "fexp NInf = Fin 0"
| "fexp NaN = NaN"

fun fsqrt :: "npfloat \<Rightarrow> npfloat" where
  "fsqrt (Fin x) = (if x < 0 then NaN else Fin (sqrt x))"
| "fsqrt PInf = PInf"
| "fsqrt NInf = NaN"
| "fsqrt NaN = NaN"

text \<open>\<open>x ** k\<close> for a non-negative integer exponent; \<open>x ** 0\<close> is 1 for every \<open>x\<close>, \<open>NaN\<close> too.\<close>

primrec fpow :: "npfloat \<Rightarrow> nat \<Rightarrow> npfloat" where
  "fpow x 0 = Fin 1"
| "fpow x (Suc k) = fmul x (fpow x k)"

text \<open>The comparison \<open>x < y\<close> of floats: false as soon as one side is \<open>NaN\<close>.\<close>

fun fless :: "npfloat \<Rightarrow> npfloat \<Rightarrow> bool" where
  "fless (Fin x) (Fin y) = (x < y)"
| "fless NaN y = False"
| "fless x NaN = False"
| "fless x NInf = False"
| "fless PInf y = False"
| "fless NInf y = True"
| "fless x PInf = True"

text \<open>
  Python's builtin \<open>max(a, b)\<close>: it keeps \<open>a\<close> unless \<open>b > a\<close>, so \<open>max(a, nan)\<close> is
  \<open>a\<close> and \<open>max(nan, b)\<close> is \<open>nan\<close>.
\<close>

definition pymax :: "npfloat \<Rightarrow> npfloat \<Rightarrow> npfloat" where
  "pymax a b = (if fless a b then b else a)"

text \<open>The sum and the mean of all entries of an array, as \<open>np.sum\<close> and \<open>np.mean\<close> give them.\<close>

definition np_sum :: "npfloat list \<Rightarrow> npfloat" where
  "np_sum xs = foldl fadd (Fin 0) xs"

definition np_mean :: "npfloat list \<Rightarrow> npfloat" where
  "np_mean xs = fdiv (np_sum xs) (Fin (real (length xs)))"

text \<open>\<open>np.std\<close> with its default \<open>ddof = 0\<close>: the root of the mean of the squared deviations.\<close>

definition np_std :: "npfloat list \<Rightarrow> npfloat" where
  "np_std xs = fsqrt (np_mean (map (\<lambda>x. fpow (fabs (fsub x (np_mean xs))) 2) xs))"

section \<open>Rounding and overflow\<close>

text \<open>
  The operations above are exact on finite numbers. A binary64 operation returns the
  exact result rounded, and an infinity when the result is too large. The operations of
  this section take that part of the arithmetic as a parameter: \<open>rnd\<close> maps the exact
  result of an addition, subtraction, multiplication or division of two finite floats to
  the float returned; \<open>rexp\<close>, \<open>rsqrt\<close> and \<open>rpow\<close> are \<open>np.exp\<close>, \<open>np.sqrt\<close> and \<open>**\<close> on
  finite arguments (\<open>rsqrt\<close> on non-negative ones, \<open>rpow\<close> for a positive integer
  exponent); \<open>rsum\<close> is \<open>np.sum\<close>, whose order of additions is numpy's own. On the
  special values the operations are those above. A statement proved for every value of
  the parameter holds of binary64. The sign of zero is not modelled.
\<close>

record fparams =
  rnd :: "real \<Rightarrow> npfloat"
  rexp :: "real \<Rightarrow> npfloat"
  rsqrt :: "real \<Rightarrow> npfloat"
  rpow :: "real \<Rightarrow> nat \<Rightarrow> npfloat"
  rsum :: "npfloat list \<Rightarrow> npfloat"

fun fl_add :: "fparams \<Rightarrow> npfloat \<Rightarrow> npfloat \<Rightarrow> npfloat" where
  "fl_add P (Fin x) (Fin y) = rnd P (x + y)"
| "fl_add P a b = fadd a b"

definition fl_sub :: "fparams \<Rightarrow> npfloat \<Rightarrow> npfloat \<Rightarrow> npfloat" where
  "fl_sub P a b = fl_add P a (fneg b)"

fun fl_mul :: "fparams \<Rightarrow> npfloat \<Rightarrow> npfloat \<Rightarrow> npfloat" where
  "fl_mul P (Fin x) (Fin y) = rnd P (x * y)"
| "fl_mul P a b = fmul a b"

fun fl_div :: "fparams \<Rightarrow> npfloat \<Rightarrow> npfloat \<Rightarrow> npfloat" where
  "fl_div P (Fin x) (Fin y) = (if y = 0 then inf_of_sign x else rnd P (x / y))"
| "fl_div P a b = fdiv a b"

fun fl_exp :: "fparams \<Rightarrow> npfloat \<Rightarrow> npfloat" where
  "fl_exp P (Fin x) = rexp P x"
| "fl_exp P a = fexp a"

fun fl_sqrt :: "fparams \<Rightarrow> npfloat \<Rightarrow> npfloat" where
  "fl_sqrt P (Fin x) = (if x < 0 then NaN else rsqrt P x)"
| "fl_sqrt P a = fsqrt a"

fun fl_pow :: "fparams \<Rightarrow> npfloat \<Rightarrow> nat \<Rightarrow> npfloat" where
  "fl_pow P a 0 = Fin 1"
| "fl_pow P (Fin x) (Suc k) = rpow P x (Suc k)"
| "fl_pow P a (Suc k) = fpow a (Suc k)"

definition np_sum_fp :: "fparams \<Rightarrow> npfloat list \<Rightarrow> npfloat" where
  "np_sum_fp P xs = rsum P xs"

definition np_mean_fp :: "fparams \<Rightarrow> npfloat list \<Rightarrow> npfloat" where
  "np_mean_fp P xs = fl_div P (np_sum_fp P xs) (Fin (real (length xs)))"

text \<open>
  \<open>np.std\<close>: the deviations from the mean are multiplied by themselves, summed, divided by
  the number of entries, and the root is taken.
\<close>

definition np_std_fp :: "fparams \<Rightarrow> npfloat list \<Rightarrow> npfloat" where
  "np_std_fp P xs =
     fl_sqrt P (np_mean_fp P
       (map (\<lambda>x. fl_mul P (fl_sub P x (np_mean_fp P xs)) (fl_sub P x (np_mean_fp P xs))) xs))"

text \<open>The arithmetic of the first section: nothing is rounded and nothing overflows.\<close>

definition exact_fp :: fparams where
  "exact_fp = \<lparr>rnd = Fin, rexp = (\<lambda>x. Fin (exp x)), rsqrt = (\<lambda>x. Fin (sqrt x)),
               rpow = (\<lambda>x k. Fin (x ^ k)), rsum = np_sum\<rparr>"

text \<open>
  Overflow without rounding: a result whose magnitude reaches \<open>2 ^ 1024\<close> becomes an
  infinity, every other result is exact. On a computation none of whose results needs
  rounding this is binary64.
\<close>

definition overflow :: "real \<Rightarrow> npfloat" where
  "overflow x = (if 2 ^ 1024 \<le> x then PInf else if x \<le> - (2 ^ 1024) then NInf else Fin x)"

fun overflow_add :: "npfloat \<Rightarrow> npfloat \<Rightarrow> npfloat" where
  "overflow_add (Fin x) (Fin y) = overflow (x + y)"
| "overflow_add a b = fadd a b"

definition overflow_fp :: fparams where
  "overflow_fp = \<lparr>rnd = overflow, rexp = (\<lambda>x. overflow (exp x)),
                  rsqrt = (\<lambda>x. overflow (sqrt x)), rpow = (\<lambda>x k. overflow (x ^ k)),
                  rsum = foldl overflow_add (Fin 0)\<rparr>"

text \<open>
  The order of floats: \<open>-inf\<close> below and \<open>+inf\<close> above every number, \<open>NaN\<close> comparable with
  nothing.
\<close>

fun fle :: "npfloat \<Rightarrow> npfloat \<Rightarrow> bool" where
  "fle (Fin x) (Fin y) = (x \<le> y)"
| "fle NaN y = False"
| "fle x NaN = False"
| "fle NInf y = True"
| "fle x PInf = True"
| "fle x NInf = False"
| "fle PInf y = False"

text \<open>
  What the statements below assume of the rounding, and binary64 rounding has: the
  rounded result is never \<open>NaN\<close>, rounding is monotone, and 0 and 1 are floats.
\<close>

definition monotone_rounding :: "fparams \<Rightarrow> bool" where
  "monotone_rounding P =
     ((\<forall>x. rnd P x \<noteq> NaN) \<and> (\<forall>x y. x \<le> y \<longrightarrow> fle (rnd P x) (rnd P y)) \<and>
      rnd P 0 = Fin 0 \<and> rnd P 1 = Fin 1)"

text \<open>
  A number passed by the caller is a Python number (\<open>int\<close> or \<open>float\<close>) or a numpy float
  (\<open>np.float64\<close>). The two differ in the division by zero: Python raises
  \<open>ZeroDivisionError\<close>, numpy returns an infinity or \<open>NaN\<close> with a warning. In both
  engines \<open>t\<close> is the only argument that is divided by a number that can be 0 (\<open>t / n\<close>
  and \<open>t / path_length\<close>).
\<close>

datatype number = Python real | Numpy real

fun number_value :: "number \<Rightarrow> real" where
  "number_value (Python x) = x"
| "number_value (Numpy x) = x"

text \<open>\<open>t / n\<close> for an integer \<open>n\<close>.\<close>

fun number_div :: "fparams \<Rightarrow> number \<Rightarrow> int \<Rightarrow> error + npfloat" where
  "number_div P (Python x) n =
     (if n = 0 then Inl ZeroDivisionError else Inr (fl_div P (Fin x) (Fin (of_int n))))"
| "number_div P (Numpy x) n = Inr (fl_div P (Fin x) (Fin (of_int n)))"

section \<open>The binomial lattice engine in exact arithmetic\<close>

text \<open>
  The functions of \<open>CRRBinomialTreeOption\<close> in the exact arithmetic of the first section,
  for a Python number \<open>t\<close>. The section on the lattice engine with rounding and overflow
  translates them again with the arithmetic as a parameter and either kind of \<open>t\<close>; in
  exact arithmetic and for a Python number \<open>t\<close> the two translations agree.
\<close>

text \<open>A \<open>for\<close> loop over a list of indices whose body may raise.\<close>

fun for_each :: "nat list \<Rightarrow> (nat \<Rightarrow> 'a \<Rightarrow> error + 'a) \<Rightarrow> 'a \<Rightarrow> error + 'a" where
  "for_each [] body a = Inr a"
| "for_each (i # is) body a =
     (case body i a of Inl e \<Rightarrow> Inl e | Inr a' \<Rightarrow> for_each is body a')"

record crr_option =
  crr_S :: real
  crr_K :: real
  crr_t :: real
  crr_r :: real
  crr_b :: real
  crr_sigma :: real
  crr_n :: int
  crr_type :: string

text \<open>\<open>CRRBinomialTreeOption.__init__\<close> stores its arguments and checks none of them.\<close>

definition crr_init ::
  "real \<Rightarrow> real \<Rightarrow> real \<Rightarrow> real \<Rightarrow> real \<Rightarrow> real \<Rightarrow> string \<Rightarrow> int \<Rightarrow> error + crr_option" where
  "crr_init S K t r b sigma type n =
     Inr \<lparr>crr_S = S, crr_K = K, crr_t = t, crr_r = r, crr_b = b, crr_sigma = sigma,
          crr_n = n, crr_type = type\<rparr>"

text \<open>
  The quantities \<open>_calc_price\<close> computes first. \<open>dt = self._t / n\<close> is a division of Python
  numbers (it raises for \<open>n = 0\<close>, see \<open>calc_price\<close>); the others are numpy values.
\<close>

definition crr_dt :: "crr_option \<Rightarrow> int \<Rightarrow> real" where
  "crr_dt self n = crr_t self / of_int n"

definition crr_u :: "crr_option \<Rightarrow> int \<Rightarrow> npfloat" where
  "crr_u self n = fexp (fmul (Fin (crr_sigma self)) (fsqrt (Fin (crr_dt self n))))"

definition crr_d :: "crr_option \<Rightarrow> int \<Rightarrow> npfloat" where
  "crr_d self n = fdiv (Fin 1) (crr_u self n)"

definition crr_p :: "crr_option \<Rightarrow> int \<Rightarrow> npfloat" where
  "crr_p self n =
     fdiv (fsub (fexp (Fin (crr_b self * crr_dt self n))) (crr_d self n))
          (fsub (crr_u self n) (crr_d self n))"

definition crr_Df :: "crr_option \<Rightarrow> int \<Rightarrow> npfloat" where
  "crr_Df self n = fexp (Fin (- crr_r self * crr_dt self n))"

text \<open>
  The terminal payoff vector: \<open>z * (S * u ** arange(0, n + 1) * d ** arange(n, -1, -1) - K)\<close>,
  then \<open>(abs(v) + v) / 2\<close> on every entry.
\<close>

definition terminal_payoff :: "crr_option \<Rightarrow> int \<Rightarrow> int \<Rightarrow> npfloat list" where
  "terminal_payoff self z n =
     (let u = crr_u self n; d = crr_d self n;
          OptionValue =
            map2 (\<lambda>ui dk. fmul (Fin (of_int z))
                             (fsub (fmul (fmul (Fin (crr_S self)) ui) dk) (Fin (crr_K self))))
              (map (fpow u) [0..<nat (n + 1)])
              (map (fpow d) (rev [0..<nat (n + 1)]))
      in map (\<lambda>v. fdiv (fadd (fabs v) v) (Fin 2)) OptionValue)"

text \<open>
  \<open>_euro\<close>: the body of the inner loop reads \<open>OptionValue[i + 1]\<close> and \<open>OptionValue[i]\<close>
  and writes \<open>OptionValue[i]\<close> in place; an index beyond the array raises.
\<close>

definition euro_node :: "npfloat \<Rightarrow> npfloat \<Rightarrow> nat \<Rightarrow> npfloat list \<Rightarrow> error + npfloat list" where
  "euro_node p Df i OptionValue =
     (if i + 1 < length OptionValue
      then Inr (OptionValue[i :=
             fmul (fadd (fmul p (OptionValue ! (i + 1)))
                        (fmul (fsub (Fin 1) p) (OptionValue ! i))) Df])
      else Inl IndexError)"

definition euro_rows ::
  "nat list \<Rightarrow> npfloat \<Rightarrow> npfloat \<Rightarrow> npfloat list \<Rightarrow> error + npfloat list" where
  "euro_rows js Df p OptionValue =
     for_each js (\<lambda>j. for_each [0..<j + 1] (euro_node p Df)) OptionValue"

definition euro :: "npfloat list \<Rightarrow> int \<Rightarrow> npfloat \<Rightarrow> npfloat \<Rightarrow> error + npfloat list" where
  "euro OptionValue n Df p = euro_rows (rev [0..<nat n]) Df p OptionValue"

text \<open>\<open>_amer\<close>: the same loops, with the early-exercise comparison by Python's \<open>max\<close>.\<close>

definition amer_node ::
  "npfloat \<Rightarrow> npfloat \<Rightarrow> real \<Rightarrow> npfloat \<Rightarrow> real \<Rightarrow> npfloat \<Rightarrow> int \<Rightarrow> nat \<Rightarrow> nat \<Rightarrow>
   npfloat list \<Rightarrow> error + npfloat list" where
  "amer_node Df p K d S u z j i OptionValue =
     (if i + 1 < length OptionValue
      then Inr (OptionValue[i :=
             pymax (fmul (Fin (of_int z))
                      (fsub (fmul (fmul (Fin S) (fpow u i)) (fpow d (nat \<bar>int i - int j\<bar>)))
                            (Fin K)))
                   (fmul (fadd (fmul p (OptionValue ! (i + 1)))
                               (fmul (fsub (Fin 1) p) (OptionValue ! i))) Df)])
      else Inl IndexError)"

definition amer_rows ::
  "nat list \<Rightarrow> npfloat \<Rightarrow> npfloat \<Rightarrow> real \<Rightarrow> npfloat \<Rightarrow> real \<Rightarrow> npfloat \<Rightarrow> int \<Rightarrow>
   npfloat list \<Rightarrow> error + npfloat list" where
  "amer_rows js Df p K d S u z OptionValue =
     for_each js (\<lambda>j. for_each [0..<j + 1] (amer_node Df p K d S u z j)) OptionValue"

definition amer ::
  "npfloat list \<Rightarrow> int \<Rightarrow> npfloat \<Rightarrow> npfloat \<Rightarrow> real \<Rightarrow> npfloat \<Rightarrow> real \<Rightarrow> npfloat \<Rightarrow> int \<Rightarrow>
   error + npfloat list" where
  "amer OptionValue n Df p K d S u z = amer_rows (rev [0..<nat n]) Df p K d S u z OptionValue"

text \<open>\<open>[0]\<close> on the array a loop returns: an empty array raises.\<close>

definition first_entry :: "error + npfloat list \<Rightarrow> error + npfloat option" where
  "first_entry res =
     (case res of Inl e \<Rightarrow> Inl e
      | Inr [] \<Rightarrow> Inl IndexError
      | Inr (v # vs) \<Rightarrow> Inr (Some v))"

text \<open>
  \<open>_calc_price\<close>. The result is \<open>Inl\<close> an exception, \<open>Inr None\<close> where the function falls
  off its end (Python's \<open>None\<close>), or \<open>Inr (Some price)\<close>.
\<close>

definition calc_price :: "crr_option \<Rightarrow> int \<Rightarrow> int \<Rightarrow> string \<Rightarrow> error + npfloat option" where
  "calc_price self z n type =
     (if n = 0 then Inl ZeroDivisionError
      else let u = crr_u self n; d = crr_d self n; p = crr_p self n; Df = crr_Df self n;
               OptionValue = terminal_payoff self z n
           in if type = ''european'' then first_entry (euro OptionValue n Df p)
              else if type = ''american''
                then first_entry (amer OptionValue n Df p (crr_K self) d (crr_S self) u z)
              else Inr None)"

definition crr_call :: "crr_option \<Rightarrow> error + npfloat option" where
  "crr_call self = calc_price self 1 (crr_n self) (crr_type self)"

definition crr_put :: "crr_option \<Rightarrow> error + npfloat option" where
  "crr_put self = calc_price self (- 1) (crr_n self) (crr_type self)"

subsection \<open>The backward induction as the specification words it\<close>

text \<open>
  The specification keeps an array of node values that shrinks by one entry at each
  backward step: at step \<open>j\<close> the nodes \<open>0..j\<close> are computed from the \<open>j + 2\<close> values of
  the step before. \<open>fmax\<close> is the maximum of two floats that propagates \<open>NaN\<close>.
\<close>

definition fmax :: "npfloat \<Rightarrow> npfloat \<Rightarrow> npfloat" where
  "fmax a b = (if a = NaN \<or> b = NaN then NaN else if fless a b then b else a)"

fun spec_backward :: "('a \<Rightarrow> 'a \<Rightarrow> 'a) \<Rightarrow> nat \<Rightarrow> 'a list \<Rightarrow> 'a list" where
  "spec_backward update 0 value = value"
| "spec_backward update (Suc j) value =
     spec_backward update j (map (\<lambda>i. update (value ! (i + 1)) (value ! i)) [0..<Suc j])"

text \<open>
  The value of node \<open>i\<close> after \<open>k\<close> backward steps of an \<open>n\<close>-step lattice, for any update
  rule \<open>h j i up cur\<close> (step \<open>j\<close>, node \<open>i\<close>, the values above and at the node): the
  mathematical object both loops compute.
\<close>

fun node_value ::
  "(nat \<Rightarrow> nat \<Rightarrow> 'a \<Rightarrow> 'a \<Rightarrow> 'a) \<Rightarrow> (nat \<Rightarrow> 'a) \<Rightarrow> nat \<Rightarrow> nat \<Rightarrow> nat \<Rightarrow> 'a" where
  "node_value h terminal n 0 i = terminal i"
| "node_value h terminal n (Suc k) i =
     h (n - Suc k) i (node_value h terminal n k (Suc i)) (node_value h terminal n k i)"

section \<open>The Monte Carlo engine\<close>

type_synonym batch = "npfloat list list"

text \<open>
  The three capabilities are supplied by the caller. An \<open>Innovations\<close> class is its
  constructor and its \<open>sample_innovation\<close> method, which may change the instance (a
  generator's position): the instance's state is of type \<open>'s\<close>. A \<open>Path\<close> class is its
  constructor, giving an object of type \<open>'p\<close>. A \<open>Payoff\<close> class is what
  \<open>Payoff(path, S, K, t, r, b, sigma).call()\<close> and \<open>.put()\<close> return. An absent capability
  (Python's \<open>None\<close>) is \<open>None\<close>.
\<close>

record 's innovations_class =
  innovations_init :: "int \<Rightarrow> int \<Rightarrow> batch option \<Rightarrow> 's"
  sample_innovation :: "'s \<Rightarrow> batch \<times> 's"

type_synonym 'p path_class = "batch \<Rightarrow> real option \<Rightarrow> npfloat \<Rightarrow> real \<Rightarrow> 'p"

record 'p payoff_class =
  payoff_call :: "'p \<Rightarrow> real \<Rightarrow> real \<Rightarrow> real \<Rightarrow> real \<Rightarrow> real \<Rightarrow> real option \<Rightarrow> npfloat list"
  payoff_put :: "'p \<Rightarrow> real \<Rightarrow> real \<Rightarrow> real \<Rightarrow> real \<Rightarrow> real \<Rightarrow> real option \<Rightarrow> npfloat list"

text \<open>
  A \<open>MonteCarloOption\<close> object. \<open>mc_Innovation\<close> is the innovation instance the
  constructor built (its state) and \<open>mc_sample\<close> its \<open>sample_innovation\<close> method;
  \<open>mc_Path\<close> and \<open>mc_Payoff\<close> are the classes as they were passed.
\<close>

record ('s, 'p) mc_option =
  mc_loops :: int
  mc_path_length :: int
  mc_paths :: int
  mc_dt :: npfloat
  mc_S :: real
  mc_K :: real
  mc_t :: real
  mc_r :: real
  mc_b :: real
  mc_sigma :: "real option"
  mc_Innovation :: "'s"
  mc_sample :: "'s \<Rightarrow> batch \<times> 's"
  mc_Path :: "'p path_class option"
  mc_Payoff :: "'p payoff_class option"
  mc_trace :: bool
  mc_antithetic :: bool
  mc_standardization :: bool
  mc_eps :: "batch option"

text \<open>
  \<open>MonteCarloOption.__init__\<close>: \<open>self._dt = t / path_length\<close> is evaluated first (it
  raises for a Python number \<open>t\<close> and \<open>path_length = 0\<close>; a numpy float \<open>t\<close> gives an
  infinity or \<open>NaN\<close> and the constructor goes on), then the \<open>Innovation\<close> class is
  called; nothing else is looked at. \<open>P\<close> is the float arithmetic the division is done
  in.
\<close>

definition mc_init ::
  "fparams \<Rightarrow> int \<Rightarrow> int \<Rightarrow> int \<Rightarrow> real \<Rightarrow> real \<Rightarrow> number \<Rightarrow> real \<Rightarrow> real \<Rightarrow> real option \<Rightarrow>
   's innovations_class option \<Rightarrow> 'p path_class option \<Rightarrow> 'p payoff_class option \<Rightarrow>
   bool \<Rightarrow> bool \<Rightarrow> bool \<Rightarrow> batch option \<Rightarrow> error + ('s, 'p) mc_option" where
  "mc_init P loops path_length paths S K t r b sigma Innovation Path Payoff trace antithetic
     standardization eps =
     (case number_div P t path_length of
        Inl e \<Rightarrow> Inl e
      | Inr dt \<Rightarrow>
          (case Innovation of
             None \<Rightarrow> Inl TypeError
           | Some cls \<Rightarrow>
               Inr \<lparr>mc_loops = loops, mc_path_length = path_length, mc_paths = paths,
                    mc_dt = dt, mc_S = S, mc_K = K, mc_t = number_value t, mc_r = r,
                    mc_b = b, mc_sigma = sigma,
                    mc_Innovation = innovations_init cls paths path_length eps,
                    mc_sample = sample_innovation cls,
                    mc_Path = Path, mc_Payoff = Payoff, mc_trace = trace,
                    mc_antithetic = antithetic, mc_standardization = standardization,
                    mc_eps = eps\<rparr>))"

text \<open>What a run prints, and what it returns.\<close>

datatype printed = TraceTitle | TraceHeader | TraceLoop nat npfloat npfloat | BlankLine

datatype 'p mc_result = Iteration "npfloat list" | Diagnostic batch 'p "npfloat list"

text \<open>
  The state of a run: the innovation instance, the \<open>iteration\<close> array, the printed lines,
  the loops a warning was issued for, and the arguments of each call of the \<open>Path\<close>
  constructor (kept to state what the constructor received).
\<close>

record 's mc_run =
  inno :: 's
  iteration :: "npfloat list"
  stdout :: "printed list"
  warnings :: "nat list"
  path_calls :: "(batch \<times> real option \<times> npfloat \<times> real) list"

datatype ('st, 'r) flow = Next 'st | Return 'r 'st | Raise error 'st

fun loop_flow :: "nat list \<Rightarrow> (nat \<Rightarrow> 'st \<Rightarrow> ('st, 'r) flow) \<Rightarrow> 'st \<Rightarrow> ('st, 'r) flow" where
  "loop_flow [] body st = Next st"
| "loop_flow (i # is) body st =
     (case body i st of
        Next st' \<Rightarrow> loop_flow is body st'
      | Return v st' \<Rightarrow> Return v st'
      | Raise e st' \<Rightarrow> Raise e st')"

text \<open>\<open>np.concatenate((eps, -eps))\<close>: along the first axis, the paths.\<close>

definition antithetic_expand :: "batch \<Rightarrow> batch" where
  "antithetic_expand eps = eps @ map (map fneg) eps"

text \<open>\<open>(eps - np.mean(eps)) / np.std(eps)\<close>: the moments are taken over all entries.\<close>

definition standardize :: "batch \<Rightarrow> batch" where
  "standardize eps =
     map (map (\<lambda>x. fdiv (fsub x (np_mean (concat eps))) (np_std (concat eps)))) eps"

definition transform_innovations :: "('s, 'p) mc_option \<Rightarrow> batch \<Rightarrow> batch" where
  "transform_innovations self eps0 =
     (let eps = (if mc_antithetic self then antithetic_expand eps0 else eps0)
      in if mc_standardization self then standardize eps else eps)"

text \<open>
  One pass of the loop of \<open>_sim_mc\<close>. The loop index is always inside \<open>iteration\<close>, which
  has \<open>mc_loops\<close> entries.
\<close>

definition mc_body ::
  "('s, 'p) mc_option \<Rightarrow> bool \<Rightarrow> nat \<Rightarrow> 's mc_run \<Rightarrow> ('s mc_run, 'p mc_result) flow" where
  "mc_body self call i st =
     (let (eps0, s') = mc_sample self (inno st);
          st1 = st\<lparr>inno := s'\<rparr>;
          eps = transform_innovations self eps0
      in case mc_Path self of
           None \<Rightarrow> Raise TypeError st1
         | Some Path \<Rightarrow>
             (let path = Path eps (mc_sigma self) (mc_dt self) (mc_b self);
                  st2 = st1\<lparr>path_calls :=
                           path_calls st1 @ [(eps, mc_sigma self, mc_dt self, mc_b self)]\<rparr>
              in (case mc_Payoff self of
                    None \<Rightarrow> Raise TypeError st2
                  | Some Payoff \<Rightarrow>
                      (let payoff = (if call then payoff_call Payoff else payoff_put Payoff)
                                      path (mc_S self) (mc_K self) (mc_t self) (mc_r self)
                                      (mc_b self) (mc_sigma self);
                           tmp = np_mean payoff
                       in if tmp = PInf
                          then Return (Diagnostic eps path payoff)
                                 (st2\<lparr>warnings := warnings st2 @ [i]\<rparr>)
                          else (let st3 = st2\<lparr>iteration := list_update (iteration st2) i tmp\<rparr>
                                in Next (if mc_trace self
                                         then st3\<lparr>stdout := stdout st3 @
                                                [TraceLoop i (iteration st3 ! i)
                                                   (fdiv (np_sum (iteration st3))
                                                      (Fin (real (i + 1))))]\<rparr>
                                         else st3))))))"

text \<open>
  \<open>_sim_mc\<close>, started with the innovation instance in state \<open>s0\<close>. \<open>np.zeros\<close> raises for
  a negative length.
\<close>

definition sim_mc ::
  "('s, 'p) mc_option \<Rightarrow> bool \<Rightarrow> 's \<Rightarrow> ('s mc_run, 'p mc_result) flow" where
  "sim_mc self call s0 =
     (let st0 = \<lparr>inno = s0, iteration = [],
                 stdout = (if mc_trace self then [TraceTitle, TraceHeader] else []),
                 warnings = [], path_calls = []\<rparr>
      in if mc_loops self < 0 then Raise ValueError st0
         else case loop_flow [0..<nat (mc_loops self)] (mc_body self call)
                     (st0\<lparr>iteration := replicate (nat (mc_loops self)) (Fin 0)\<rparr>) of
                Next st \<Rightarrow> Return (Iteration (iteration st)) (st\<lparr>stdout := stdout st @ [BlankLine]\<rparr>)
              | Return v st \<Rightarrow> Return v st
              | Raise e st \<Rightarrow> Raise e st)"

text \<open>
  \<open>call()\<close> and \<open>put()\<close>. The run starts with the innovation instance as the object
  holds it and returns, with its result, the state it leaves the instance in.
\<close>

definition mc_call :: "('s, 'p) mc_option \<Rightarrow> ('s mc_run, 'p mc_result) flow" where
  "mc_call self = sim_mc self True (mc_Innovation self)"

definition mc_put :: "('s, 'p) mc_option \<Rightarrow> ('s mc_run, 'p mc_result) flow" where
  "mc_put self = sim_mc self False (mc_Innovation self)"

text \<open>What the caller receives: the returned value or the exception, without the run state.\<close>

fun outcome :: "('st, 'r) flow \<Rightarrow> error + 'r option" where
  "outcome (Next st) = Inr None"
| "outcome (Return v st) = Inr (Some v)"
| "outcome (Raise e st) = Inl e"

fun final_state :: "('st, 'r) flow \<Rightarrow> 'st" where
  "final_state (Next st) = st"
| "final_state (Return v st) = st"
| "final_state (Raise e st) = st"

text \<open>The first \<open>k\<close> batches an innovation source draws from state \<open>s\<close>, and the state after them.\<close>

fun draws :: "('s \<Rightarrow> batch \<times> 's) \<Rightarrow> 's \<Rightarrow> nat \<Rightarrow> batch list" where
  "draws sample s 0 = []"
| "draws sample s (Suc k) = fst (sample s) # draws sample (snd (sample s)) k"

fun draws_state :: "('s \<Rightarrow> batch \<times> 's) \<Rightarrow> 's \<Rightarrow> nat \<Rightarrow> 's" where
  "draws_state sample s 0 = s"
| "draws_state sample s (Suc k) = draws_state sample (snd (sample s)) k"

section \<open>Auxiliary notions for the statements and proofs\<close>

text \<open>
  The definitions of this section translate no source function: they name the quantities
  the theorems below speak about.
\<close>

subsection \<open>The lattice\<close>

text \<open>The two infinities.\<close>

definition is_inf :: "npfloat \<Rightarrow> bool" where
  "is_inf x = (x = PInf \<or> x = NInf)"

text \<open>The exercise value \<open>z * (S * u ** i * d ** k - K)\<close> of a node, as a float.\<close>

definition intrinsic :: "crr_option \<Rightarrow> int \<Rightarrow> int \<Rightarrow> nat \<Rightarrow> nat \<Rightarrow> npfloat" where
  "intrinsic self z n i k =
     fmul (Fin (of_int z))
       (fsub (fmul (fmul (Fin (crr_S self)) (fpow (crr_u self n) i)) (fpow (crr_d self n) k))
             (Fin (crr_K self)))"

text \<open>The two update rules of the backward induction, as functions of step and node.\<close>

definition euro_update :: "npfloat \<Rightarrow> npfloat \<Rightarrow> nat \<Rightarrow> nat \<Rightarrow> npfloat \<Rightarrow> npfloat \<Rightarrow> npfloat" where
  "euro_update p Df j i up cur = fmul (fadd (fmul p up) (fmul (fsub (Fin 1) p) cur)) Df"

definition amer_update ::
  "crr_option \<Rightarrow> int \<Rightarrow> int \<Rightarrow> nat \<Rightarrow> nat \<Rightarrow> npfloat \<Rightarrow> npfloat \<Rightarrow> npfloat" where
  "amer_update self z n j i up cur =
     pymax (intrinsic self z n i (j - i)) (euro_update (crr_p self n) (crr_Df self n) j i up cur)"

text \<open>The same quantities over the reals, for the lattices whose numbers are all finite.\<close>

definition crr_ur :: "crr_option \<Rightarrow> int \<Rightarrow> real" where
  "crr_ur self n = exp (crr_sigma self * sqrt (crr_dt self n))"

definition intrinsic_r :: "crr_option \<Rightarrow> int \<Rightarrow> int \<Rightarrow> nat \<Rightarrow> nat \<Rightarrow> real" where
  "intrinsic_r self z n i k =
     of_int z * (crr_S self * crr_ur self n ^ i * (1 / crr_ur self n) ^ k - crr_K self)"

definition euro_update_r :: "real \<Rightarrow> real \<Rightarrow> nat \<Rightarrow> nat \<Rightarrow> real \<Rightarrow> real \<Rightarrow> real" where
  "euro_update_r p Df j i up cur = (p * up + (1 - p) * cur) * Df"

definition amer_update_r ::
  "crr_option \<Rightarrow> int \<Rightarrow> int \<Rightarrow> real \<Rightarrow> real \<Rightarrow> nat \<Rightarrow> nat \<Rightarrow> real \<Rightarrow> real \<Rightarrow> real" where
  "amer_update_r self z n p Df j i up cur =
     max (intrinsic_r self z n i (j - i)) (euro_update_r p Df j i up cur)"

text \<open>The example of the class documentation.\<close>

definition crr_example :: crr_option where
  "crr_example = \<lparr>crr_S = 50, crr_K = 50, crr_t = 5 / 12, crr_r = 1 / 10, crr_b = 1 / 10,
                   crr_sigma = 4 / 10, crr_n = 5, crr_type = ''european''\<rparr>"

text \<open>
  The price the specification gives for \<open>sigma = 0\<close>: the discounted exercise value at
  the forward price \<open>S * exp(b * t)\<close>.
\<close>

definition spec_degenerate_price :: "crr_option \<Rightarrow> int \<Rightarrow> real" where
  "spec_degenerate_price self z =
     exp (- crr_r self * crr_t self) *
     max (of_int z * (crr_S self * exp (crr_b self * crr_t self) - crr_K self)) 0"

text \<open>Further inputs at which the statements are evaluated.\<close>

definition crr_sigma0_example :: crr_option where
  "crr_sigma0_example = \<lparr>crr_S = 100, crr_K = 90, crr_t = 1, crr_r = 0, crr_b = 0,
                          crr_sigma = 0, crr_n = 1, crr_type = ''european''\<rparr>"

subsection \<open>The Monte Carlo engine\<close>

text \<open>A run state without its printed lines, and a map over the state of a result.\<close>

definition silent :: "'s mc_run \<Rightarrow> 's mc_run" where
  "silent st = st\<lparr>stdout := []\<rparr>"

fun flow_state_map :: "('st \<Rightarrow> 'st) \<Rightarrow> ('st, 'r) flow \<Rightarrow> ('st, 'r) flow" where
  "flow_state_map f (Next st) = Next (f st)"
| "flow_state_map f (Return v st) = Return v (f st)"
| "flow_state_map f (Raise e st) = Raise e (f st)"




text \<open>
  Capabilities for the examples: an innovation source that counts its calls (the draw
  number \<open>s\<close> is the batch \<open>[[s, s + 2]]\<close>), a \<open>Path\<close> that keeps the batch, and a
  \<open>Payoff\<close> whose call payoff is infinite on the second draw and whose put payoff is
  \<open>-inf\<close> on every draw.
\<close>

definition counting_innovations :: "nat innovations_class" where
  "counting_innovations =
     \<lparr>innovations_init = (\<lambda>paths len eps. 0),
      sample_innovation = (\<lambda>s. ([[Fin (real s), Fin (real s + 2)]], Suc s))\<rparr>"

definition identity_path :: "batch path_class" where
  "identity_path = (\<lambda>eps sigma dt b. eps)"

definition probe_payoff :: "batch payoff_class" where
  "probe_payoff =
     \<lparr>payoff_call = (\<lambda>path S K t r b sigma. if path = [[Fin 1, Fin 3]] then [PInf] else [Fin 1]),
      payoff_put = (\<lambda>path S K t r b sigma. [NInf])\<rparr>"

definition mc_example :: "(nat, batch) mc_option" where
  "mc_example =
     \<lparr>mc_loops = 2, mc_path_length = 2, mc_paths = 1, mc_dt = Fin (1 / 2), mc_S = 100, mc_K = 100,
      mc_t = 1, mc_r = 0, mc_b = 0, mc_sigma = Some 1, mc_Innovation = 0,
      mc_sample = sample_innovation counting_innovations,
      mc_Path = Some identity_path, mc_Payoff = Some probe_payoff, mc_trace = False,
      mc_antithetic = False, mc_standardization = False, mc_eps = None\<rparr>"





section \<open>The lattice engine with rounding and overflow\<close>

text \<open>
  The functions of \<open>CRRBinomialTreeOption\<close> again, statement by statement, in the
  arithmetic \<open>P\<close> and with the kind of the number \<open>t\<close>. The other arguments are finite
  numbers, of either kind: no operation on them tells the two apart.
\<close>

record crr_fp =
  fp_S :: real
  fp_K :: real
  fp_t :: number
  fp_r :: real
  fp_b :: real
  fp_sigma :: real
  fp_n :: int
  fp_type :: string

definition crr_fp_init ::
  "real \<Rightarrow> real \<Rightarrow> number \<Rightarrow> real \<Rightarrow> real \<Rightarrow> real \<Rightarrow> string \<Rightarrow> int \<Rightarrow> error + crr_fp" where
  "crr_fp_init S K t r b sigma type n =
     Inr \<lparr>fp_S = S, fp_K = K, fp_t = t, fp_r = r, fp_b = b, fp_sigma = sigma,
          fp_n = n, fp_type = type\<rparr>"

text \<open>
  \<open>u = np.exp(self._sigma * np.sqrt(dt))\<close>, \<open>d = 1 / u\<close>,
  \<open>p = (np.exp(self._b * dt) - d) / (u - d)\<close> and \<open>Df = np.exp(-self._r * dt)\<close>, as
  functions of \<open>dt\<close>.
\<close>

definition fp_u :: "fparams \<Rightarrow> crr_fp \<Rightarrow> npfloat \<Rightarrow> npfloat" where
  "fp_u P self dt = fl_exp P (fl_mul P (Fin (fp_sigma self)) (fl_sqrt P dt))"

definition fp_d :: "fparams \<Rightarrow> crr_fp \<Rightarrow> npfloat \<Rightarrow> npfloat" where
  "fp_d P self dt = fl_div P (Fin 1) (fp_u P self dt)"

definition fp_p :: "fparams \<Rightarrow> crr_fp \<Rightarrow> npfloat \<Rightarrow> npfloat" where
  "fp_p P self dt =
     fl_div P (fl_sub P (fl_exp P (fl_mul P (Fin (fp_b self)) dt)) (fp_d P self dt))
              (fl_sub P (fp_u P self dt) (fp_d P self dt))"

definition fp_Df :: "fparams \<Rightarrow> crr_fp \<Rightarrow> npfloat \<Rightarrow> npfloat" where
  "fp_Df P self dt = fl_exp P (fl_mul P (Fin (- fp_r self)) dt)"

text \<open>
  The terminal payoff vector: \<open>z * (S * u ** arange(0, n + 1) * d ** arange(n, -1, -1) - K)\<close>,
  then \<open>(abs(v) + v) / 2\<close> on every entry.
\<close>

definition fp_terminal_payoff :: "fparams \<Rightarrow> crr_fp \<Rightarrow> int \<Rightarrow> int \<Rightarrow> npfloat \<Rightarrow> npfloat list" where
  "fp_terminal_payoff P self z n dt =
     (let u = fp_u P self dt; d = fp_d P self dt;
          OptionValue =
            map2 (\<lambda>ui dk. fl_mul P (Fin (of_int z))
                             (fl_sub P (fl_mul P (fl_mul P (Fin (fp_S self)) ui) dk)
                                (Fin (fp_K self))))
              (map (fl_pow P u) [0..<nat (n + 1)])
              (map (fl_pow P d) (rev [0..<nat (n + 1)]))
      in map (\<lambda>v. fl_div P (fl_add P (fabs v) v) (Fin 2)) OptionValue)"

definition euro_node_fp ::
  "fparams \<Rightarrow> npfloat \<Rightarrow> npfloat \<Rightarrow> nat \<Rightarrow> npfloat list \<Rightarrow> error + npfloat list" where
  "euro_node_fp P p Df i OptionValue =
     (if i + 1 < length OptionValue
      then Inr (OptionValue[i :=
             fl_mul P (fl_add P (fl_mul P p (OptionValue ! (i + 1)))
                                (fl_mul P (fl_sub P (Fin 1) p) (OptionValue ! i))) Df])
      else Inl IndexError)"

definition euro_rows_fp ::
  "fparams \<Rightarrow> nat list \<Rightarrow> npfloat \<Rightarrow> npfloat \<Rightarrow> npfloat list \<Rightarrow> error + npfloat list" where
  "euro_rows_fp P js Df p OptionValue =
     for_each js (\<lambda>j. for_each [0..<j + 1] (euro_node_fp P p Df)) OptionValue"

definition euro_fp ::
  "fparams \<Rightarrow> npfloat list \<Rightarrow> int \<Rightarrow> npfloat \<Rightarrow> npfloat \<Rightarrow> error + npfloat list" where
  "euro_fp P OptionValue n Df p = euro_rows_fp P (rev [0..<nat n]) Df p OptionValue"

definition amer_node_fp ::
  "fparams \<Rightarrow> npfloat \<Rightarrow> npfloat \<Rightarrow> real \<Rightarrow> npfloat \<Rightarrow> real \<Rightarrow> npfloat \<Rightarrow> int \<Rightarrow> nat \<Rightarrow> nat \<Rightarrow>
   npfloat list \<Rightarrow> error + npfloat list" where
  "amer_node_fp P Df p K d S u z j i OptionValue =
     (if i + 1 < length OptionValue
      then Inr (OptionValue[i :=
             pymax (fl_mul P (Fin (of_int z))
                      (fl_sub P (fl_mul P (fl_mul P (Fin S) (fl_pow P u i))
                                   (fl_pow P d (nat \<bar>int i - int j\<bar>)))
                                (Fin K)))
                   (fl_mul P (fl_add P (fl_mul P p (OptionValue ! (i + 1)))
                                       (fl_mul P (fl_sub P (Fin 1) p) (OptionValue ! i))) Df)])
      else Inl IndexError)"

definition amer_rows_fp ::
  "fparams \<Rightarrow> nat list \<Rightarrow> npfloat \<Rightarrow> npfloat \<Rightarrow> real \<Rightarrow> npfloat \<Rightarrow> real \<Rightarrow> npfloat \<Rightarrow> int \<Rightarrow>
   npfloat list \<Rightarrow> error + npfloat list" where
  "amer_rows_fp P js Df p K d S u z OptionValue =
     for_each js (\<lambda>j. for_each [0..<j + 1] (amer_node_fp P Df p K d S u z j)) OptionValue"

definition amer_fp ::
  "fparams \<Rightarrow> npfloat list \<Rightarrow> int \<Rightarrow> npfloat \<Rightarrow> npfloat \<Rightarrow> real \<Rightarrow> npfloat \<Rightarrow> real \<Rightarrow> npfloat \<Rightarrow>
   int \<Rightarrow> error + npfloat list" where
  "amer_fp P OptionValue n Df p K d S u z =
     amer_rows_fp P (rev [0..<nat n]) Df p K d S u z OptionValue"

text \<open>
  \<open>_calc_price\<close>: \<open>dt = self._t / n\<close> comes first and raises for a Python number \<open>t\<close> and
  \<open>n = 0\<close>; the type string is looked at last.
\<close>

definition calc_price_fp ::
  "fparams \<Rightarrow> crr_fp \<Rightarrow> int \<Rightarrow> int \<Rightarrow> string \<Rightarrow> error + npfloat option" where
  "calc_price_fp P self z n type =
     (case number_div P (fp_t self) n of
        Inl e \<Rightarrow> Inl e
      | Inr dt \<Rightarrow>
          (let u = fp_u P self dt; d = fp_d P self dt; p = fp_p P self dt;
               Df = fp_Df P self dt; OptionValue = fp_terminal_payoff P self z n dt
           in if type = ''european'' then first_entry (euro_fp P OptionValue n Df p)
              else if type = ''american''
                then first_entry (amer_fp P OptionValue n Df p (fp_K self) d (fp_S self) u z)
              else Inr None))"

definition call_fp :: "fparams \<Rightarrow> crr_fp \<Rightarrow> error + npfloat option" where
  "call_fp P self = calc_price_fp P self 1 (fp_n self) (fp_type self)"

definition put_fp :: "fparams \<Rightarrow> crr_fp \<Rightarrow> error + npfloat option" where
  "put_fp P self = calc_price_fp P self (- 1) (fp_n self) (fp_type self)"

subsection \<open>The lattice algorithm as the specification words it, in the same arithmetic\<close>

text \<open>
  The algorithm of the specification with the terminal payoff as a parameter: the
  specification takes \<open>max(v, 0)\<close> of the exercise value \<open>v\<close>.
\<close>

definition spec_european_with ::
  "fparams \<Rightarrow> (npfloat \<Rightarrow> npfloat) \<Rightarrow> real \<Rightarrow> real \<Rightarrow> real \<Rightarrow> real \<Rightarrow> real \<Rightarrow> real \<Rightarrow> nat \<Rightarrow> int \<Rightarrow>
   npfloat" where
  "spec_european_with P floor_at_0 S K t r b sigma n z =
     (let dt = fl_div P (Fin t) (Fin (real n));
          u = fl_exp P (fl_mul P (Fin sigma) (fl_sqrt P dt));
          d = fl_div P (Fin 1) u;
          p = fl_div P (fl_sub P (fl_exp P (fl_mul P (Fin b) dt)) d) (fl_sub P u d);
          discount = fl_exp P (fl_mul P (Fin (- r)) dt);
          payoff = map (\<lambda>i. floor_at_0 (fl_mul P (Fin (of_int z))
                     (fl_sub P (fl_mul P (fl_mul P (Fin S) (fl_pow P u i)) (fl_pow P d (n - i)))
                        (Fin K)))) [0..<n + 1]
      in spec_backward
           (\<lambda>up cur. fl_mul P discount (fl_add P (fl_mul P p up) (fl_mul P (fl_sub P (Fin 1) p) cur)))
           n payoff ! 0)"

definition spec_european_price_fp ::
  "fparams \<Rightarrow> real \<Rightarrow> real \<Rightarrow> real \<Rightarrow> real \<Rightarrow> real \<Rightarrow> real \<Rightarrow> nat \<Rightarrow> int \<Rightarrow> npfloat" where
  "spec_european_price_fp P = spec_european_with P (\<lambda>v. fmax v (Fin 0))"

section \<open>The Monte Carlo loop with rounding and overflow\<close>

text \<open>
  The standardization and one pass of the loop of \<open>_sim_mc\<close>, in the arithmetic \<open>P\<close>; in
  exact arithmetic this is the loop body of the section on the Monte Carlo engine.
\<close>

definition standardize_fp :: "fparams \<Rightarrow> batch \<Rightarrow> batch" where
  "standardize_fp P eps =
     map (map (\<lambda>x. fl_div P (fl_sub P x (np_mean_fp P (concat eps)))
                      (np_std_fp P (concat eps)))) eps"

definition transform_innovations_fp :: "fparams \<Rightarrow> ('s, 'p) mc_option \<Rightarrow> batch \<Rightarrow> batch" where
  "transform_innovations_fp P self eps0 =
     (let eps = (if mc_antithetic self then antithetic_expand eps0 else eps0)
      in if mc_standardization self then standardize_fp P eps else eps)"

definition mc_body_fp ::
  "fparams \<Rightarrow> ('s, 'p) mc_option \<Rightarrow> bool \<Rightarrow> nat \<Rightarrow> 's mc_run \<Rightarrow>
   ('s mc_run, 'p mc_result) flow" where
  "mc_body_fp P self call i st =
     (let (eps0, s') = mc_sample self (inno st);
          st1 = st\<lparr>inno := s'\<rparr>;
          eps = transform_innovations_fp P self eps0
      in case mc_Path self of
           None \<Rightarrow> Raise TypeError st1
         | Some Path \<Rightarrow>
             (let path = Path eps (mc_sigma self) (mc_dt self) (mc_b self);
                  st2 = st1\<lparr>path_calls :=
                           path_calls st1 @ [(eps, mc_sigma self, mc_dt self, mc_b self)]\<rparr>
              in (case mc_Payoff self of
                    None \<Rightarrow> Raise TypeError st2
                  | Some Payoff \<Rightarrow>
                      (let payoff = (if call then payoff_call Payoff else payoff_put Payoff)
                                      path (mc_S self) (mc_K self) (mc_t self) (mc_r self)
                                      (mc_b self) (mc_sigma self);
                           tmp = np_mean_fp P payoff
                       in if tmp = PInf
                          then Return (Diagnostic eps path payoff)
                                 (st2\<lparr>warnings := warnings st2 @ [i]\<rparr>)
                          else (let st3 = st2\<lparr>iteration := list_update (iteration st2) i tmp\<rparr>
                                in Next (if mc_trace self
                                         then st3\<lparr>stdout := stdout st3 @
                                                [TraceLoop i (iteration st3 ! i)
                                                   (fl_div P (np_sum_fp P (iteration st3))
                                                      (Fin (real (i + 1))))]\<rparr>
                                         else st3))))))"

section \<open>Auxiliary notions for the statements with rounding\<close>

text \<open>A float that is a number.\<close>

fun is_fin :: "npfloat \<Rightarrow> bool" where
  "is_fin (Fin x) = True"
| "is_fin x = False"

text \<open>The exercise value of a node and the two update rules, in the arithmetic \<open>P\<close>.\<close>

definition fp_intrinsic :: "fparams \<Rightarrow> crr_fp \<Rightarrow> int \<Rightarrow> npfloat \<Rightarrow> nat \<Rightarrow> nat \<Rightarrow> npfloat" where
  "fp_intrinsic P self z dt i k =
     fl_mul P (Fin (of_int z))
       (fl_sub P (fl_mul P (fl_mul P (Fin (fp_S self)) (fl_pow P (fp_u P self dt) i))
                    (fl_pow P (fp_d P self dt) k))
                 (Fin (fp_K self)))"

definition euro_update_fp ::
  "fparams \<Rightarrow> npfloat \<Rightarrow> npfloat \<Rightarrow> nat \<Rightarrow> nat \<Rightarrow> npfloat \<Rightarrow> npfloat \<Rightarrow> npfloat" where
  "euro_update_fp P p Df j i up cur =
     fl_mul P (fl_add P (fl_mul P p up) (fl_mul P (fl_sub P (Fin 1) p) cur)) Df"

definition amer_update_fp ::
  "fparams \<Rightarrow> crr_fp \<Rightarrow> int \<Rightarrow> npfloat \<Rightarrow> nat \<Rightarrow> nat \<Rightarrow> npfloat \<Rightarrow> npfloat \<Rightarrow> npfloat" where
  "amer_update_fp P self z dt j i up cur =
     pymax (fp_intrinsic P self z dt i (j - i))
       (euro_update_fp P (fp_p P self dt) (fp_Df P self dt) j i up cur)"

text \<open>The terminal payoff the code computes from an exercise value: \<open>(abs(v) + v) / 2\<close>.\<close>

definition half_abs_sum :: "fparams \<Rightarrow> npfloat \<Rightarrow> npfloat" where
  "half_abs_sum P v = fl_div P (fl_add P (fabs v) v) (Fin 2)"

text \<open>
  At every terminal node of an \<open>n\<close>-step lattice, \<open>(abs(v) + v) / 2\<close> is \<open>max(v, 0)\<close>.
\<close>

definition payoff_is_max :: "fparams \<Rightarrow> crr_fp \<Rightarrow> int \<Rightarrow> nat \<Rightarrow> npfloat \<Rightarrow> bool" where
  "payoff_is_max P self z n dt =
     list_all (\<lambda>i. half_abs_sum P (fp_intrinsic P self z dt i (n - i)) =
                    fmax (fp_intrinsic P self z dt i (n - i)) (Fin 0)) [0..<n + 1]"

text \<open>
  Every node value of the American-style backward induction is a number: the terminal
  vector (\<open>j = n\<close>) and, after the steps \<open>n - 1, ..., j\<close>, the entries \<open>0..j\<close> of the array.
\<close>

definition amer_nodes_finite :: "fparams \<Rightarrow> crr_fp \<Rightarrow> int \<Rightarrow> int \<Rightarrow> npfloat \<Rightarrow> bool" where
  "amer_nodes_finite P self z n dt =
     list_all
       (\<lambda>j. case amer_rows_fp P (rev [j..<nat n]) (fp_Df P self dt) (fp_p P self dt) (fp_K self)
                    (fp_d P self dt) (fp_S self) (fp_u P self dt) z
                    (fp_terminal_payoff P self z n dt) of
               Inl e \<Rightarrow> False
             | Inr V \<Rightarrow> list_all (\<lambda>i. is_fin (V ! i)) [0..<j + 1])
       [0..<nat n + 1]"

text \<open>An object of the exact engine as an object of this one: \<open>t\<close> is a Python number.\<close>

definition as_fp :: "crr_option \<Rightarrow> crr_fp" where
  "as_fp self =
     \<lparr>fp_S = crr_S self, fp_K = crr_K self, fp_t = Python (crr_t self), fp_r = crr_r self,
      fp_b = crr_b self, fp_sigma = crr_sigma self, fp_n = crr_n self,
      fp_type = crr_type self\<rparr>"

text \<open>Inputs at which the statements are evaluated.\<close>

definition fp_example :: crr_fp where
  "fp_example = as_fp crr_example"

definition fp_overflow_example :: crr_fp where
  "fp_overflow_example =
     \<lparr>fp_S = 50, fp_K = 50, fp_t = Python 1, fp_r = 0, fp_b = 0, fp_sigma = 1000, fp_n = 1,
      fp_type = ''european''\<rparr>"

definition fp_untyped_example :: crr_fp where
  "fp_untyped_example = fp_example\<lparr>fp_type := ''bermudan''\<rparr>"

definition fp_zero_steps_example :: crr_fp where
  "fp_zero_steps_example = fp_example\<lparr>fp_n := 0, fp_type := ''bermudan''\<rparr>"

definition fp_numpy_zero_steps_example :: crr_fp where
  "fp_numpy_zero_steps_example =
     fp_example\<lparr>fp_t := Numpy (5 / 12), fp_n := 0, fp_type := ''bermudan''\<rparr>"


text \<open>
  A large float, an innovation source whose every draw is the batch \<open>[[huge], [-huge]]\<close>,
  and the example with standardization drawing from it.
\<close>

definition huge :: real where
  "huge = 2 ^ 600"



section \<open>The loops of the lattice engine in exact arithmetic\<close>

lemma for_each_append:
  "for_each (xs @ ys) body a =
     (case for_each xs body a of Inl e \<Rightarrow> Inl e | Inr a' \<Rightarrow> for_each ys body a')"
  by (induction xs arbitrary: a) (auto split: sum.splits)

lemma row_prefix:
  assumes body: "\<And>i V. body i V =
      (if i + 1 < length V then Inr (V[i := h i (V ! (i + 1)) (V ! i)]) else Inl IndexError)"
    and len: "m < length V"
  shows "for_each [0..<m] body V =
      Inr (map (\<lambda>i. if i < m then h i (V ! (i + 1)) (V ! i) else V ! i) [0..<length V])"
  using len
proof (induction m)
  case 0
  then show ?case by (simp add: map_nth)
next
  case (Suc m)
  let ?W = "map (\<lambda>i. if i < m then h i (V ! (i + 1)) (V ! i) else V ! i) [0..<length V]"
  have W: "for_each [0..<m] body V = Inr ?W" using Suc by simp
  have step: "body m ?W = Inr (?W[m := h m (V ! (m + 1)) (V ! m)])"
    using Suc.prems by (simp add: body)
  have upd: "?W[m := h m (V ! (m + 1)) (V ! m)] =
      map (\<lambda>i. if i < Suc m then h i (V ! (i + 1)) (V ! i) else V ! i) [0..<length V]"
    using Suc.prems by (auto intro!: nth_equalityI simp: nth_list_update less_Suc_eq)
  have "for_each [0..<Suc m] body V = for_each ([0..<m] @ [m]) body V" by simp
  also have "\<dots> = for_each [m] body ?W" by (simp only: for_each_append W sum.case)
  also have "\<dots> = Inr (?W[m := h m (V ! (m + 1)) (V ! m)])"
    by (simp only: for_each.simps step sum.case)
  finally show ?case by (simp only: upd)
qed

lemma rows_generic:
  assumes body: "\<And>j i V. body j i V =
      (if i + 1 < length V then Inr (V[i := h j i (V ! (i + 1)) (V ! i)]) else Inl IndexError)"
    and len: "length V = n + 1" and k: "k \<le> n"
  shows "for_each (rev [n - k..<n]) (\<lambda>j. for_each [0..<j + 1] (body j)) V =
      Inr (map (\<lambda>i. node_value h (\<lambda>i. V ! i) n (min k (n - i)) i) [0..<n + 1])"
  using k
proof (induction k)
  case 0
  then show ?case using len map_nth[of V] by (simp del: upt_Suc)
next
  case (Suc k)
  let ?j = "n - Suc k"
  let ?W = "map (\<lambda>i. node_value h (\<lambda>i. V ! i) n (min k (n - i)) i) [0..<n + 1]"
  have split: "rev [?j..<n] = rev [Suc ?j..<n] @ [?j]"
    using Suc.prems by (simp add: upt_conv_Cons)
  have Sj: "Suc ?j = n - k" using Suc.prems by simp
  have W: "for_each (rev [n - k..<n]) (\<lambda>j. for_each [0..<j + 1] (body j)) V = Inr ?W"
    using Suc by simp
  have row: "for_each [0..<?j + 1] (body ?j) ?W =
      Inr (map (\<lambda>i. if i < ?j + 1 then h ?j i (?W ! (i + 1)) (?W ! i) else ?W ! i) [0..<length ?W])"
    by (rule row_prefix[where h="h ?j"]) (use Suc.prems in \<open>simp_all add: body\<close>)
  have eq: "map (\<lambda>i. if i < ?j + 1 then h ?j i (?W ! (i + 1)) (?W ! i) else ?W ! i) [0..<length ?W]
      = map (\<lambda>i. node_value h (\<lambda>i. V ! i) n (min (Suc k) (n - i)) i) [0..<n + 1]"
  proof (rule nth_equalityI)
    show "length (map (\<lambda>i. if i < ?j + 1 then h ?j i (?W ! (i + 1)) (?W ! i) else ?W ! i) [0..<length ?W])
      = length (map (\<lambda>i. node_value h (\<lambda>i. V ! i) n (min (Suc k) (n - i)) i) [0..<n + 1])"
      by simp
  next
    fix i assume "i < length (map (\<lambda>i. if i < ?j + 1 then h ?j i (?W ! (i + 1)) (?W ! i) else ?W ! i) [0..<length ?W])"
    then have i: "i < n + 1" by simp
    show "map (\<lambda>i. if i < ?j + 1 then h ?j i (?W ! (i + 1)) (?W ! i) else ?W ! i) [0..<length ?W] ! i
      = map (\<lambda>i. node_value h (\<lambda>i. V ! i) n (min (Suc k) (n - i)) i) [0..<n + 1] ! i"
    proof (cases "i < ?j + 1")
      case True
      then have m1: "min k (n - (i + 1)) = k" and m2: "min k (n - i) = k"
        and m3: "min (Suc k) (n - i) = Suc k" and i1: "i + 1 < n + 1"
        using Suc.prems by auto
      have "?W ! (i + 1) = node_value h (\<lambda>i. V ! i) n k (Suc i)"
        using i1 m1 by (simp del: upt_Suc)
      moreover have "?W ! i = node_value h (\<lambda>i. V ! i) n k i"
        using i m2 by (simp del: upt_Suc)
      ultimately show ?thesis using True i m3 by (simp del: upt_Suc)
    next
      case False
      then have "min k (n - i) = n - i" "min (Suc k) (n - i) = n - i"
        using Suc.prems by auto
      then show ?thesis using False i by (simp del: upt_Suc)
    qed
  qed
  have "for_each (rev [?j..<n]) (\<lambda>j. for_each [0..<j + 1] (body j)) V =
      for_each [?j] (\<lambda>j. for_each [0..<j + 1] (body j)) ?W"
    unfolding split Sj by (simp only: for_each_append W sum.case)
  also have "\<dots> = for_each [0..<?j + 1] (body ?j) ?W"
    by (cases "for_each [0..<?j + 1] (body ?j) ?W") (simp_all del: upt_Suc)
  finally show ?case by (simp only: row eq)
qed

lemma map2_upt_rev:
  "map2 f (map g [0..<m]) (map h (rev [0..<m])) = map (\<lambda>i. f (g i) (h (m - 1 - i))) [0..<m]"
  by (rule nth_equalityI) (simp_all add: rev_nth del: upt_Suc)

lemma fmul_no_inf: "\<not> is_inf a \<Longrightarrow> \<not> is_inf b \<Longrightarrow> \<not> is_inf (fmul a b)"
  by (cases a; cases b) (simp_all add: is_inf_def)

lemma fadd_no_inf: "\<not> is_inf a \<Longrightarrow> \<not> is_inf b \<Longrightarrow> \<not> is_inf (fadd a b)"
  by (cases a; cases b) (simp_all add: is_inf_def)

lemma fsub_no_inf: "\<not> is_inf a \<Longrightarrow> \<not> is_inf b \<Longrightarrow> \<not> is_inf (fsub a b)"
  by (cases a; cases b) (simp_all add: is_inf_def fsub_def)

lemma fpow_no_inf: "\<not> is_inf a \<Longrightarrow> \<not> is_inf (fpow a k)"
  by (induction k) (simp_all add: fmul_no_inf, simp add: is_inf_def)

lemma Fin_no_inf [simp]: "\<not> is_inf (Fin x)" "\<not> is_inf NaN"
  by (simp_all add: is_inf_def)

lemma abs_plus_self_half: "\<not> is_inf x \<Longrightarrow> fdiv (fadd (fabs x) x) (Fin 2) = fmax x (Fin 0)"
  by (cases x) (auto simp: is_inf_def fmax_def)

lemma fmul_commute: "fmul a b = fmul b a"
  by (cases a; cases b) (simp_all add: mult.commute)

lemma crr_u_cases:
  "crr_u self n = (if crr_dt self n < 0 then NaN
     else Fin (exp (crr_sigma self * sqrt (crr_dt self n))))"
  by (simp add: crr_u_def)

lemma crr_d_cases:
  "crr_d self n = (if crr_dt self n < 0 then NaN
     else Fin (1 / exp (crr_sigma self * sqrt (crr_dt self n))))"
  by (simp add: crr_d_def crr_u_cases)

lemma crr_u_no_inf: "\<not> is_inf (crr_u self n)"
  by (simp add: crr_u_cases)

lemma crr_d_no_inf: "\<not> is_inf (crr_d self n)"
  by (simp add: crr_d_cases)

lemma intrinsic_no_inf: "\<not> is_inf (intrinsic self z n i k)"
  unfolding intrinsic_def
  by (intro fmul_no_inf fsub_no_inf fpow_no_inf crr_u_no_inf crr_d_no_inf Fin_no_inf)

lemma terminal_payoff_eq:
  "terminal_payoff self z n =
     map (\<lambda>i. fmax (intrinsic self z n i (nat (n + 1) - 1 - i)) (Fin 0)) [0..<nat (n + 1)]"
  unfolding terminal_payoff_def Let_def map2_upt_rev
  by (simp add: abs_plus_self_half intrinsic_no_inf flip: intrinsic_def del: upt_Suc)

lemma node_value_cong:
  "(\<And>m. m \<le> i + k \<Longrightarrow> t1 m = t2 m) \<Longrightarrow> node_value h t1 n k i = node_value h t2 n k i"
  by (induction k arbitrary: i) simp_all

lemma node_value_cong_h:
  "(\<And>j i up cur. i \<le> j \<Longrightarrow> h1 j i up cur = h2 j i up cur) \<Longrightarrow> i + k \<le> n \<Longrightarrow>
   node_value h1 t n k i = node_value h2 t n k i"
  by (induction k arbitrary: i) simp_all

lemma euro_rows_eq:
  assumes "length V = n + 1" "k \<le> n"
  shows "euro_rows (rev [n - k..<n]) Df p V =
     Inr (map (\<lambda>i. node_value (euro_update p Df) (\<lambda>i. V ! i) n (min k (n - i)) i) [0..<n + 1])"
  unfolding euro_rows_def
  by (rule rows_generic[OF _ assms]) (simp add: euro_node_def euro_update_def)

lemma amer_rows_eq:
  assumes "length V = n + 1" "k \<le> n"
  shows "amer_rows (rev [n - k..<n]) Df p K d S u z V =
     Inr (map (\<lambda>i. node_value
            (\<lambda>j i up cur. pymax (fmul (Fin (of_int z))
                      (fsub (fmul (fmul (Fin S) (fpow u i)) (fpow d (nat \<bar>int i - int j\<bar>)))
                            (Fin K))) (euro_update p Df j i up cur))
            (\<lambda>i. V ! i) n (min k (n - i)) i) [0..<n + 1])"
  unfolding amer_rows_def
  by (rule rows_generic[OF _ assms]) (simp add: amer_node_def euro_update_def)

lemma length_terminal_payoff [simp]: "length (terminal_payoff self z n) = nat (n + 1)"
  by (simp add: terminal_payoff_eq)

lemma terminal_payoff_nth:
  "i \<le> nat n \<Longrightarrow> 0 < n \<Longrightarrow>
   terminal_payoff self z n ! i = fmax (intrinsic self z n i (nat n - i)) (Fin 0)"
  by (simp add: terminal_payoff_eq nat_add_distrib del: upt_Suc)

lemma first_entry_map:
  "first_entry (Inr (map f [0..<n + 1])) = Inr (Some (f 0))"
  by (simp add: first_entry_def upt_conv_Cons del: upt_Suc)

lemma calc_price_european:
  assumes "0 < n"
  shows "calc_price self z n ''european'' =
     Inr (Some (node_value (euro_update (crr_p self n) (crr_Df self n))
                  (\<lambda>i. fmax (intrinsic self z n i (nat n - i)) (Fin 0)) (nat n) (nat n) 0))"
proof -
  have len: "length (terminal_payoff self z n) = nat n + 1"
    using assms by (simp add: nat_add_distrib)
  have "euro (terminal_payoff self z n) n (crr_Df self n) (crr_p self n) =
      Inr (map (\<lambda>i. node_value (euro_update (crr_p self n) (crr_Df self n))
            (\<lambda>i. terminal_payoff self z n ! i) (nat n) (min (nat n) (nat n - i)) i) [0..<nat n + 1])"
    using euro_rows_eq[OF len, of "nat n"] by (simp add: euro_def)
  then have "calc_price self z n ''european'' =
      Inr (Some (node_value (euro_update (crr_p self n) (crr_Df self n))
            (\<lambda>i. terminal_payoff self z n ! i) (nat n) (nat n) 0))"
    using assms by (simp only: calc_price_def Let_def first_entry_map) simp
  also have "node_value (euro_update (crr_p self n) (crr_Df self n))
            (\<lambda>i. terminal_payoff self z n ! i) (nat n) (nat n) 0 =
      node_value (euro_update (crr_p self n) (crr_Df self n))
                  (\<lambda>i. fmax (intrinsic self z n i (nat n - i)) (Fin 0)) (nat n) (nat n) 0"
    by (rule node_value_cong) (use assms in \<open>simp add: terminal_payoff_nth\<close>)
  finally show ?thesis .
qed

lemma calc_price_american:
  assumes "0 < n"
  shows "calc_price self z n ''american'' =
     Inr (Some (node_value (amer_update self z n)
                  (\<lambda>i. fmax (intrinsic self z n i (nat n - i)) (Fin 0)) (nat n) (nat n) 0))"
proof -
  let ?h = "\<lambda>j i up cur. pymax (fmul (Fin (of_int z))
                      (fsub (fmul (fmul (Fin (crr_S self)) (fpow (crr_u self n) i)) (fpow (crr_d self n) (nat \<bar>int i - int j\<bar>)))
                            (Fin (crr_K self)))) (euro_update (crr_p self n) (crr_Df self n) j i up cur)"
  have len: "length (terminal_payoff self z n) = nat n + 1"
    using assms by (simp add: nat_add_distrib)
  have "amer (terminal_payoff self z n) n (crr_Df self n) (crr_p self n) (crr_K self)
          (crr_d self n) (crr_S self) (crr_u self n) z =
      Inr (map (\<lambda>i. node_value ?h
            (\<lambda>i. terminal_payoff self z n ! i) (nat n) (min (nat n) (nat n - i)) i) [0..<nat n + 1])"
    using amer_rows_eq[OF len, of "nat n"] by (simp add: amer_def)
  then have "calc_price self z n ''american'' =
      Inr (Some (node_value ?h (\<lambda>i. terminal_payoff self z n ! i) (nat n) (nat n) 0))"
    using assms by (simp only: calc_price_def Let_def first_entry_map) simp
  also have "node_value ?h (\<lambda>i. terminal_payoff self z n ! i) (nat n) (nat n) 0 =
      node_value ?h (\<lambda>i. fmax (intrinsic self z n i (nat n - i)) (Fin 0)) (nat n) (nat n) 0"
    by (rule node_value_cong) (use assms in \<open>simp add: terminal_payoff_nth\<close>)
  also have "\<dots> = node_value (amer_update self z n)
                  (\<lambda>i. fmax (intrinsic self z n i (nat n - i)) (Fin 0)) (nat n) (nat n) 0"
    by (rule node_value_cong_h) (simp_all add: amer_update_def intrinsic_def nat_diff_distrib')
  finally show ?thesis .
qed

lemma spec_backward_eq:
  assumes h: "\<And>j i. h j i = update"
  shows "j \<le> n \<Longrightarrow>
    spec_backward update j (map (\<lambda>i. node_value h t n (n - j) i) [0..<Suc j]) =
      [node_value h t n n 0]"
proof (induction j)
  case 0
  then show ?case by simp
next
  case (Suc j)
  have S: "Suc (n - Suc j) = n - j" using Suc.prems by simp
  have M: "map (\<lambda>i. update (map (\<lambda>i. node_value h t n (n - Suc j) i) [0..<Suc (Suc j)] ! (i + 1))
                         (map (\<lambda>i. node_value h t n (n - Suc j) i) [0..<Suc (Suc j)] ! i)) [0..<Suc j]
      = map (\<lambda>i. node_value h t n (n - j) i) [0..<Suc j]"
  proof (rule map_cong[OF refl])
    fix i assume "i \<in> set [0..<Suc j]"
    then have i: "i < Suc j" by (simp del: upt_Suc)
    let ?F = "\<lambda>i. node_value h t n (n - Suc j) i"
    have b1: "i + 1 < Suc (Suc j) - 0" and b2: "i < Suc (Suc j) - 0" using i by arith+
    have a1: "map ?F [0..<Suc (Suc j)] ! (i + 1) = ?F (Suc i)"
      using nth_map_upt[OF b1, of ?F] by simp
    have a2: "map ?F [0..<Suc (Suc j)] ! i = ?F i"
      using nth_map_upt[OF b2, of ?F] by simp
    have "node_value h t n (n - j) i =
        h (n - Suc (n - Suc j)) i (node_value h t n (n - Suc j) (Suc i)) (node_value h t n (n - Suc j) i)"
      using node_value.simps(2)[of h t n "n - Suc j" i] by (simp only: S)
    then show "update (map (\<lambda>i. node_value h t n (n - Suc j) i) [0..<Suc (Suc j)] ! (i + 1))
                         (map (\<lambda>i. node_value h t n (n - Suc j) i) [0..<Suc (Suc j)] ! i)
        = node_value h t n (n - j) i"
      by (simp only: a1 a2 h)
  qed
  have "spec_backward update (Suc j) (map (\<lambda>i. node_value h t n (n - Suc j) i) [0..<Suc (Suc j)])
      = spec_backward update j (map (\<lambda>i. node_value h t n (n - j) i) [0..<Suc j])"
    by (simp only: spec_backward.simps M)
  also have "\<dots> = [node_value h t n n 0]"
    using Suc by simp
  finally show ?case .
qed

lemma fpow_Fin [simp]: "fpow (Fin x) k = Fin (x ^ k)"
  by (induction k) simp_all

lemma crr_p_Fin_dt: "crr_p self n = Fin pr \<Longrightarrow> 0 \<le> crr_dt self n"
  by (rule ccontr) (simp add: crr_p_def crr_u_cases crr_d_cases fsub_def)

lemma crr_u_Fin: "0 \<le> crr_dt self n \<Longrightarrow> crr_u self n = Fin (crr_ur self n)"
  by (simp add: crr_u_cases crr_ur_def)

lemma crr_d_Fin: "0 \<le> crr_dt self n \<Longrightarrow> crr_d self n = Fin (1 / crr_ur self n)"
  by (simp add: crr_d_cases crr_ur_def)

lemma crr_Df_Fin: "crr_Df self n = Fin (exp (- crr_r self * crr_dt self n))"
  by (simp add: crr_Df_def)

lemma intrinsic_Fin:
  "0 \<le> crr_dt self n \<Longrightarrow> intrinsic self z n i k = Fin (intrinsic_r self z n i k)"
  by (simp add: intrinsic_def intrinsic_r_def crr_u_Fin crr_d_Fin fsub_def)

lemma fmax_Fin [simp]: "fmax (Fin a) (Fin b) = Fin (max a b)"
  by (simp add: fmax_def max_def)

lemma pymax_Fin [simp]: "pymax (Fin a) (Fin b) = Fin (max a b)"
  by (simp add: pymax_def max_def)

lemma euro_update_Fin:
  "euro_update (Fin p) (Fin Df) j i (Fin a) (Fin b) = Fin (euro_update_r p Df j i a b)"
  by (simp add: euro_update_def euro_update_r_def fsub_def)

lemma amer_update_Fin:
  "0 \<le> crr_dt self n \<Longrightarrow> crr_p self n = Fin p \<Longrightarrow> crr_Df self n = Fin Df \<Longrightarrow>
   amer_update self z n j i (Fin a) (Fin b) = Fin (amer_update_r self z n p Df j i a b)"
  by (simp add: amer_update_def amer_update_r_def intrinsic_Fin euro_update_Fin)

lemma node_value_Fin:
  assumes "\<And>j i a b. h j i (Fin a) (Fin b) = Fin (hr j i a b)"
  shows "node_value h (\<lambda>i. Fin (t i)) n k i = Fin (node_value hr t n k i)"
  by (induction k arbitrary: i) (simp_all add: assms)

lemma crr_dt_type_update: "crr_dt (self\<lparr>crr_type := ty\<rparr>) n = crr_dt self n"
  by (simp add: crr_dt_def)

lemma crr_u_type_update: "crr_u (self\<lparr>crr_type := ty\<rparr>) n = crr_u self n"
  by (simp only: crr_u_def crr_dt_type_update) simp

lemma crr_d_type_update: "crr_d (self\<lparr>crr_type := ty\<rparr>) n = crr_d self n"
  by (simp only: crr_d_def crr_u_type_update)

lemma crr_p_type_update: "crr_p (self\<lparr>crr_type := ty\<rparr>) n = crr_p self n"
  by (simp only: crr_p_def crr_u_type_update crr_d_type_update crr_dt_type_update) simp

lemma crr_Df_type_update: "crr_Df (self\<lparr>crr_type := ty\<rparr>) n = crr_Df self n"
  by (simp only: crr_Df_def crr_dt_type_update) simp

lemma terminal_payoff_type_update:
  "terminal_payoff (self\<lparr>crr_type := ty\<rparr>) z n = terminal_payoff self z n"
  by (simp only: terminal_payoff_def crr_u_type_update crr_d_type_update) simp

lemma calc_price_type_update [simp]:
  "calc_price (self\<lparr>crr_type := ty\<rparr>) z n ty' = calc_price self z n ty'"
  by (simp only: calc_price_def crr_u_type_update crr_d_type_update crr_p_type_update
      crr_Df_type_update terminal_payoff_type_update) (simp add: Let_def)

lemma crr_p_in_unit:
  assumes dt: "0 < crr_dt self n" and s: "0 < crr_sigma self"
    and lo: "- (crr_sigma self * sqrt (crr_dt self n)) \<le> crr_b self * crr_dt self n"
    and hi: "crr_b self * crr_dt self n \<le> crr_sigma self * sqrt (crr_dt self n)"
  shows "\<exists>pr. crr_p self n = Fin pr \<and> 0 \<le> pr \<and> pr \<le> 1"
proof -
  let ?x = "crr_sigma self * sqrt (crr_dt self n)"
  let ?y = "crr_b self * crr_dt self n"
  have x: "0 < ?x" using dt s by simp
  have ud: "exp (- ?x) < exp ?x" using x by simp
  have d: "1 / exp ?x = exp (- ?x)" by (simp add: exp_minus inverse_eq_divide)
  have num: "0 \<le> exp ?y - exp (- ?x)" using lo by simp
  have le: "exp ?y - exp (- ?x) \<le> exp ?x - exp (- ?x)" using hi by simp
  have p: "crr_p self n = Fin ((exp ?y - exp (- ?x)) / (exp ?x - exp (- ?x)))"
    using dt s ud by (simp add: crr_p_def crr_u_cases crr_d_cases fsub_def d)
  have "0 \<le> (exp ?y - exp (- ?x)) / (exp ?x - exp (- ?x))"
    using num ud by simp
  moreover have "(exp ?y - exp (- ?x)) / (exp ?x - exp (- ?x)) \<le> 1"
    using le ud by simp
  ultimately show ?thesis using p by blast
qed

lemma crr_example_p: "\<exists>pr. crr_p crr_example 5 = Fin pr \<and> 0 \<le> pr \<and> pr \<le> 1"
proof (rule crr_p_in_unit)
  have dt: "crr_dt crr_example 5 = 1 / 12" by (simp add: crr_dt_def crr_example_def)
  have sq: "1 / 12 \<le> sqrt (1 / 12 :: real)" by (rule real_le_rsqrt) (simp add: power2_eq_square)
  show "0 < crr_dt crr_example 5" by (simp add: dt)
  show "0 < crr_sigma crr_example" by (simp add: crr_example_def)
  have "- (4 / 10 * sqrt (1 / 12 :: real)) \<le> 0" by simp
  also have "(0 :: real) \<le> 1 / 10 * (1 / 12)" by simp
  finally have "- (4 / 10 * sqrt (1 / 12 :: real)) \<le> 1 / 10 * (1 / 12)" .
  then show "- (crr_sigma crr_example * sqrt (crr_dt crr_example 5)) \<le> crr_b crr_example * crr_dt crr_example 5"
    unfolding dt by (simp add: crr_example_def)
  show "crr_b crr_example * crr_dt crr_example 5 \<le> crr_sigma crr_example * sqrt (crr_dt crr_example 5)"
    unfolding dt using sq by (simp add: crr_example_def)
qed

lemma amer_rows_finite:
  assumes n: "0 < n" and p: "crr_p self n = Fin pr" and j: "j < nat n"
  shows "\<exists>V. amer_rows (rev [j..<nat n]) (crr_Df self n) (crr_p self n) (crr_K self)
               (crr_d self n) (crr_S self) (crr_u self n) z (terminal_payoff self z n) = Inr V \<and>
             (\<forall>i\<le>j. V ! i =
                Fin (node_value (amer_update_r self z n pr (exp (- crr_r self * crr_dt self n)))
                       (\<lambda>i. max (intrinsic_r self z n i (nat n - i)) 0) (nat n) (nat n - j) i))"
proof -
  let ?N = "nat n"
  let ?T = "terminal_payoff self z n"
  let ?h = "\<lambda>j i up cur. pymax (fmul (Fin (of_int z))
      (fsub (fmul (fmul (Fin (crr_S self)) (fpow (crr_u self n) i))
                  (fpow (crr_d self n) (nat \<bar>int i - int j\<bar>))) (Fin (crr_K self))))
      (euro_update (crr_p self n) (crr_Df self n) j i up cur)"
  let ?V = "map (\<lambda>i. node_value ?h (\<lambda>i. ?T ! i) ?N (min (?N - j) (?N - i)) i) [0..<?N + 1]"
  let ?hr = "amer_update_r self z n pr (exp (- crr_r self * crr_dt self n))"
  let ?tr = "\<lambda>i. max (intrinsic_r self z n i (?N - i)) 0"
  have dt: "0 \<le> crr_dt self n" using p by (rule crr_p_Fin_dt)
  have len: "length ?T = ?N + 1" using n by (simp add: nat_add_distrib)
  have jj: "?N - (?N - j) = j" using j by simp
  have rows: "amer_rows (rev [j..<?N]) (crr_Df self n) (crr_p self n) (crr_K self)
               (crr_d self n) (crr_S self) (crr_u self n) z ?T = Inr ?V"
    using amer_rows_eq[OF len, of "?N - j" "crr_Df self n" "crr_p self n" "crr_K self"
        "crr_d self n" "crr_S self" "crr_u self n" z]
    by (simp only: jj diff_le_self)
  have t: "(\<lambda>i. fmax (intrinsic self z n i (?N - i)) (Fin 0)) = (\<lambda>i. Fin (?tr i))"
    by (simp add: intrinsic_Fin[OF dt])
  have val: "?V ! i = Fin (node_value ?hr ?tr ?N (?N - j) i)" if i: "i \<le> j" for i
  proof -
    have m: "min (?N - j) (?N - i) = ?N - j" using i j by simp
    have b: "i < ?N + 1 - 0" using i j by simp
    have "?V ! i = node_value ?h (\<lambda>i. ?T ! i) ?N (?N - j) i"
      using nth_map_upt[OF b, of "\<lambda>i. node_value ?h (\<lambda>i. ?T ! i) ?N (min (?N - j) (?N - i)) i"]
      by (simp only: m add_0)
    also have "\<dots> = node_value ?h (\<lambda>i. fmax (intrinsic self z n i (?N - i)) (Fin 0)) ?N (?N - j) i"
      by (rule node_value_cong) (use n i j in \<open>simp add: terminal_payoff_nth\<close>)
    also have "\<dots> = node_value (amer_update self z n)
        (\<lambda>i. fmax (intrinsic self z n i (?N - i)) (Fin 0)) ?N (?N - j) i"
      by (rule node_value_cong_h)
        (use i j in \<open>simp_all add: amer_update_def intrinsic_def nat_diff_distrib'\<close>)
    also have "\<dots> = Fin (node_value ?hr ?tr ?N (?N - j) i)"
      unfolding t
      by (rule node_value_Fin) (rule amer_update_Fin[OF dt p crr_Df_Fin])
    finally show ?thesis .
  qed
  show ?thesis using rows val by blast
qed

subsection \<open>Degenerate inputs\<close>

lemma fadd_NaN_right [simp]: "fadd x NaN = NaN"
  by (cases x) simp_all

lemma fmul_NaN_right [simp]: "fmul x NaN = NaN"
  by (cases x) simp_all

lemma fmul_NaN_left [simp]: "fmul NaN x = NaN"
  by (cases x) simp_all

lemma fadd_NaN_left [simp]: "fadd NaN x = NaN"
  by (cases x) simp_all

lemma inf_of_sign_not_Fin [simp]: "inf_of_sign s \<noteq> Fin x"
  by (simp add: inf_of_sign_def)

lemma crr_p_sigma0: "crr_sigma self = 0 \<Longrightarrow> crr_p self n \<noteq> Fin x"
  by (simp add: crr_p_def crr_u_cases crr_d_cases fsub_def)

lemma nonfinite_mix:
  assumes "\<And>x. p \<noteq> Fin x"
  shows "fadd (fmul p (Fin m)) (fmul (fsub (Fin 1) p) (Fin m)) = NaN"
  using assms by (cases p) (auto simp: fsub_def inf_of_sign_def)

lemma euro_update_equal:
  "(\<And>x. p \<noteq> Fin x) \<Longrightarrow> euro_update p Df j i (Fin m) (Fin m) = NaN"
  by (simp add: euro_update_def nonfinite_mix)

lemma euro_update_NaN [simp]: "euro_update p Df j i NaN b = NaN"
  by (simp add: euro_update_def)

lemma euro_node_value_NaN:
  assumes p: "\<And>x. p \<noteq> Fin x" and t: "\<And>i. t i = c" and c: "c = NaN \<or> (\<exists>m. c = Fin m)"
  shows "node_value (euro_update p Df) t n (Suc k) i = NaN"
proof (induction k arbitrary: i)
  case 0
  from c show ?case
  proof
    assume "c = NaN" then show ?thesis by (simp add: t)
  next
    assume "\<exists>m. c = Fin m"
    then obtain m where "c = Fin m" ..
    then show ?thesis by (simp add: t euro_update_equal[OF p])
  qed
next
  case (Suc k)
  have "node_value (euro_update p Df) t n (Suc (Suc k)) i =
      euro_update p Df (n - Suc (Suc k)) i (node_value (euro_update p Df) t n (Suc k) (Suc i))
        (node_value (euro_update p Df) t n (Suc k) i)"
    by (rule node_value.simps)
  then show ?case by (simp only: Suc euro_update_NaN)
qed

lemma fpow_NaN: "0 < k \<Longrightarrow> fpow NaN k = NaN"
  by (cases k) simp_all

lemma crr_ur_sigma0: "crr_sigma self = 0 \<Longrightarrow> crr_ur self n = 1"
  by (simp add: crr_ur_def)

lemma intrinsic_sigma0:
  "crr_sigma self = 0 \<Longrightarrow> 0 \<le> crr_dt self n \<Longrightarrow>
   intrinsic self z n i k = Fin (of_int z * (crr_S self - crr_K self))"
  by (simp add: intrinsic_Fin intrinsic_r_def crr_ur_sigma0)

lemma intrinsic_root: "intrinsic self z n 0 0 = Fin (of_int z * (crr_S self - crr_K self))"
  by (simp add: intrinsic_def fsub_def)

lemma intrinsic_NaN:
  assumes dt: "crr_dt self n < 0" and k: "0 < i + k"
  shows "intrinsic self z n i k = NaN"
proof (cases "0 < i")
  case True
  then show ?thesis using dt by (simp add: intrinsic_def crr_u_cases crr_d_cases fpow_NaN fsub_def)
next
  case False
  then have "0 < k" using k by simp
  then have "fpow NaN k = NaN" by (rule fpow_NaN)
  then show ?thesis using dt by (simp add: intrinsic_def crr_u_cases crr_d_cases fsub_def)
qed

lemma terminal_sigma0:
  assumes s: "crr_sigma self = 0" and n: "0 < n"
  shows "\<exists>c. (c = NaN \<or> (\<exists>m. c = Fin m)) \<and>
     (\<forall>i. fmax (intrinsic self z n i (nat n - i)) (Fin 0) = c)"
proof (cases "crr_dt self n < 0")
  case True
  have "intrinsic self z n i (nat n - i) = NaN" for i
    by (rule intrinsic_NaN[OF True]) (use n in arith)
  then have "\<forall>i. fmax (intrinsic self z n i (nat n - i)) (Fin 0) = NaN"
    by (simp add: fmax_def)
  then show ?thesis by blast
next
  case False
  then have "\<forall>i. fmax (intrinsic self z n i (nat n - i)) (Fin 0) =
      Fin (max (of_int z * (crr_S self - crr_K self)) 0)"
    by (simp add: intrinsic_sigma0[OF s])
  then show ?thesis by blast
qed

lemma european_sigma0:
  assumes s: "crr_sigma self = 0" and n: "0 < n"
  shows "calc_price self z n ''european'' = Inr (Some NaN)"
proof -
  obtain c where c: "c = NaN \<or> (\<exists>m. c = Fin m)"
    and t: "\<And>i. fmax (intrinsic self z n i (nat n - i)) (Fin 0) = c"
    using terminal_sigma0[OF s n, of z] by blast
  obtain k where k: "nat n = Suc k" using n by (cases "nat n") simp_all
  have "node_value (euro_update (crr_p self n) (crr_Df self n))
      (\<lambda>i. fmax (intrinsic self z n i (nat n - i)) (Fin 0)) (nat n) (Suc k) 0 = NaN"
    by (rule euro_node_value_NaN[OF crr_p_sigma0[OF s] t c])
  then show ?thesis
    using calc_price_european[OF n, of self z] by (simp only: k)
qed

lemma pymax_Fin_NaN [simp]: "pymax (Fin c) NaN = Fin c"
  by (simp add: pymax_def)

lemma amer_update_sigma0:
  assumes s: "crr_sigma self = 0" and dt: "0 \<le> crr_dt self n"
  shows "amer_update self z n j i (Fin a) (Fin a) = Fin (of_int z * (crr_S self - crr_K self))"
  by (simp add: amer_update_def intrinsic_sigma0[OF s dt] euro_update_equal[OF crr_p_sigma0[OF s]])

lemma amer_node_value_sigma0:
  assumes s: "crr_sigma self = 0" and dt: "0 \<le> crr_dt self n" and t: "\<And>i. t i = Fin m"
  shows "node_value (amer_update self z n) t N (Suc k) i =
     Fin (of_int z * (crr_S self - crr_K self))"
proof (induction k arbitrary: i)
  case 0
  show ?case
    by (simp only: node_value.simps t amer_update_sigma0[OF s dt])
next
  case (Suc k)
  have "node_value (amer_update self z n) t N (Suc (Suc k)) i =
      amer_update self z n (N - Suc (Suc k)) i (node_value (amer_update self z n) t N (Suc k) (Suc i))
        (node_value (amer_update self z n) t N (Suc k) i)"
    by (rule node_value.simps)
  then show ?case
    by (simp only: Suc amer_update_sigma0[OF s dt])
qed

lemma crr_p_NaN: "crr_dt self n < 0 \<Longrightarrow> crr_p self n = NaN"
  by (simp add: crr_p_def crr_u_cases crr_d_cases fsub_def)

lemma euro_update_p_NaN [simp]: "euro_update NaN Df j i a b = NaN"
  by (simp add: euro_update_def)

lemma american_sigma0:
  assumes s: "crr_sigma self = 0" and n: "0 < n"
  shows "calc_price self z n ''american'' =
     Inr (Some (Fin (of_int z * (crr_S self - crr_K self))))"
proof -
  let ?t = "\<lambda>i. fmax (intrinsic self z n i (nat n - i)) (Fin 0)"
  obtain k where k: "nat n = Suc k" using n by (cases "nat n") simp_all
  have "node_value (amer_update self z n) ?t (nat n) (Suc k) 0 =
      Fin (of_int z * (crr_S self - crr_K self))"
  proof (cases "crr_dt self n < 0")
    case True
    have "node_value (amer_update self z n) ?t (nat n) (Suc k) 0 =
        amer_update self z n (nat n - Suc k) 0 (node_value (amer_update self z n) ?t (nat n) k (Suc 0))
          (node_value (amer_update self z n) ?t (nat n) k 0)"
      by (rule node_value.simps)
    then show ?thesis
      by (simp add: k amer_update_def crr_p_NaN[OF True] intrinsic_root)
  next
    case False
    then have dt: "0 \<le> crr_dt self n" by simp
    show ?thesis
      by (rule amer_node_value_sigma0[OF s dt]) (simp add: intrinsic_sigma0[OF s dt])
  qed
  then show ?thesis
    using calc_price_american[OF n, of self z] by (simp only: k)
qed

section \<open>The loop of the Monte Carlo engine\<close>

lemma transform_innovations_trace [simp]:
  "transform_innovations (self\<lparr>mc_trace := tr\<rparr>) eps = transform_innovations self eps"
  by (simp add: transform_innovations_def)

lemma mc_body_silent:
  "flow_state_map silent (mc_body (self\<lparr>mc_trace := tr\<rparr>) call i st) =
   mc_body (self\<lparr>mc_trace := False\<rparr>) call i (silent st)"
  by (simp add: mc_body_def silent_def Let_def split: prod.splits option.splits)

lemma loop_flow_silent:
  "flow_state_map silent (loop_flow js (mc_body (self\<lparr>mc_trace := tr\<rparr>) call) st) =
   loop_flow js (mc_body (self\<lparr>mc_trace := False\<rparr>) call) (silent st)"
proof (induction js arbitrary: st)
  case Nil
  then show ?case by simp
next
  case (Cons i js)
  show ?case
  proof (cases "mc_body (self\<lparr>mc_trace := tr\<rparr>) call i st")
    case (Next st')
    then have "mc_body (self\<lparr>mc_trace := False\<rparr>) call i (silent st) = Next (silent st')"
      using mc_body_silent[where self=self and tr=tr and call=call and i=i and st=st] by simp
    then show ?thesis using Next Cons.IH[of st'] by simp
  next
    case (Return v st')
    then have "mc_body (self\<lparr>mc_trace := False\<rparr>) call i (silent st) = Return v (silent st')"
      using mc_body_silent[where self=self and tr=tr and call=call and i=i and st=st] by simp
    then show ?thesis using Return by simp
  next
    case (Raise e st')
    then have "mc_body (self\<lparr>mc_trace := False\<rparr>) call i (silent st) = Raise e (silent st')"
      using mc_body_silent[where self=self and tr=tr and call=call and i=i and st=st] by simp
    then show ?thesis using Raise by simp
  qed
qed

lemma outcome_flow_state_map [simp]: "outcome (flow_state_map f fl) = outcome fl"
  by (cases fl) simp_all

lemma final_state_flow_state_map [simp]:
  "final_state (flow_state_map f fl) = f (final_state fl)"
  by (cases fl) simp_all

lemma sim_mc_silent:
  "flow_state_map silent (sim_mc (self\<lparr>mc_trace := tr\<rparr>) call s0) =
   flow_state_map silent (sim_mc (self\<lparr>mc_trace := False\<rparr>) call s0)"
proof (cases "mc_loops self < 0")
  case True
  then show ?thesis by (simp add: sim_mc_def silent_def)
next
  case False
  let ?st = "\<lambda>tr. \<lparr>inno = s0, iteration = replicate (nat (mc_loops self)) (Fin 0),
      stdout = (if tr then [TraceTitle, TraceHeader] else []), warnings = [], path_calls = []\<rparr>"
  have s: "silent (?st tr) = ?st False" by (simp add: silent_def)
  have a: "flow_state_map silent (loop_flow [0..<nat (mc_loops self)] (mc_body (self\<lparr>mc_trace := tr\<rparr>) call) (?st tr))
      = loop_flow [0..<nat (mc_loops self)] (mc_body (self\<lparr>mc_trace := False\<rparr>) call) (?st False)"
    using loop_flow_silent[where self=self and tr=tr and call=call and st="?st tr" and js="[0..<nat (mc_loops self)]"] by (simp only: s)
  have b: "sim_mc (self\<lparr>mc_trace := tr'\<rparr>) call s0 =
      (case loop_flow [0..<nat (mc_loops self)] (mc_body (self\<lparr>mc_trace := tr'\<rparr>) call) (?st tr') of
         Next st \<Rightarrow> Return (Iteration (iteration st)) (st\<lparr>stdout := stdout st @ [BlankLine]\<rparr>)
       | Return v st \<Rightarrow> Return v st
       | Raise e st \<Rightarrow> Raise e st)" for tr'
    using False by (simp add: sim_mc_def)
  let ?L = "\<lambda>tr. loop_flow [0..<nat (mc_loops self)] (mc_body (self\<lparr>mc_trace := tr\<rparr>) call) (?st tr)"
  show ?thesis
  proof (cases "?L tr")
    case (Next st')
    then have "?L False = Next (silent st')" using a by simp
    then show ?thesis using Next by (simp add: b silent_def)
  next
    case (Return v st')
    then have "?L False = Return v (silent st')" using a by simp
    then show ?thesis using Return by (simp add: b silent_def)
  next
    case (Raise e st')
    then have "?L False = Raise e (silent st')" using a by simp
    then show ?thesis using Raise by (simp add: b silent_def)
  qed
qed

lemma silent_fields [simp]:
  "inno (silent st) = inno st" "iteration (silent st) = iteration st"
  "warnings (silent st) = warnings st" "path_calls (silent st) = path_calls st"
  by (simp_all add: silent_def)

lemma sim_mc_trace_irrelevant:
  "outcome (sim_mc (self\<lparr>mc_trace := True\<rparr>) call s0) =
     outcome (sim_mc (self\<lparr>mc_trace := False\<rparr>) call s0) \<and>
   inno (final_state (sim_mc (self\<lparr>mc_trace := True\<rparr>) call s0)) =
     inno (final_state (sim_mc (self\<lparr>mc_trace := False\<rparr>) call s0)) \<and>
   warnings (final_state (sim_mc (self\<lparr>mc_trace := True\<rparr>) call s0)) =
     warnings (final_state (sim_mc (self\<lparr>mc_trace := False\<rparr>) call s0)) \<and>
   path_calls (final_state (sim_mc (self\<lparr>mc_trace := True\<rparr>) call s0)) =
     path_calls (final_state (sim_mc (self\<lparr>mc_trace := False\<rparr>) call s0))"
proof -
  let ?A = "sim_mc (self\<lparr>mc_trace := True\<rparr>) call s0"
  let ?B = "sim_mc (self\<lparr>mc_trace := False\<rparr>) call s0"
  have e: "flow_state_map silent ?A = flow_state_map silent ?B" by (rule sim_mc_silent)
  have "outcome ?A = outcome (flow_state_map silent ?A)" by simp
  also have "\<dots> = outcome ?B" unfolding e by simp
  finally have 1: "outcome ?A = outcome ?B" .
  have "silent (final_state ?A) = silent (final_state ?B)"
    using arg_cong[OF e, of final_state] by simp
  then have "inno (silent (final_state ?A)) = inno (silent (final_state ?B))"
    "warnings (silent (final_state ?A)) = warnings (silent (final_state ?B))"
    "path_calls (silent (final_state ?A)) = path_calls (silent (final_state ?B))"
    by simp_all
  then show ?thesis using 1 by simp
qed






lemma length_draws [simp]: "length (draws sample s k) = k"
  by (induction k arbitrary: s) simp_all


lemma mc_init_example:
  "mc_init exact_fp 2 2 1 100 100 (Python 1) 0 0 (Some 1) (Some counting_innovations)
     (Some identity_path) (Some probe_payoff) False False False None = Inr mc_example"
  by (simp add: mc_init_def mc_example_def counting_innovations_def exact_fp_def)

lemma crr_init_example:
  "crr_init 50 50 (5 / 12) (1 / 10) (1 / 10) (4 / 10) ''european'' 5 = Inr crr_example"
  by (simp add: crr_init_def crr_example_def)



lemma np_mean_single [simp]: "np_mean [x] = fdiv (fadd (Fin 0) x) (Fin 1)"
  by (simp add: np_mean_def np_sum_def)

lemma mc_example_transform [simp]: "transform_innovations mc_example e = e"
  by (simp add: transform_innovations_def mc_example_def)





lemma mc_call_trace:
  "mc_call (self\<lparr>mc_trace := tr\<rparr>) = sim_mc (self\<lparr>mc_trace := tr\<rparr>) True (mc_Innovation self)"
  "mc_put (self\<lparr>mc_trace := tr\<rparr>) = sim_mc (self\<lparr>mc_trace := tr\<rparr>) False (mc_Innovation self)"
  by (simp_all add: mc_call_def mc_put_def)

lemma length_standardize [simp]: "length (standardize eps) = length eps"
  by (simp add: standardize_def)

lemma length_antithetic_expand [simp]: "length (antithetic_expand eps) = 2 * length eps"
  by (simp add: antithetic_expand_def)







subsection \<open>Moments of a standardized batch\<close>




lemma np_mean_Nil [simp]: "np_mean [] = NaN"
  by (simp add: np_mean_def np_sum_def inf_of_sign_def)














lemma sim_mc_negative:
  "mc_loops self < 0 \<Longrightarrow> outcome (sim_mc self call s0) = Inl ValueError"
  by (simp add: sim_mc_def)

lemma sim_mc_zero:
  "mc_loops self = 0 \<Longrightarrow> outcome (sim_mc self call s0) = Inr (Some (Iteration []))"
  by (simp add: sim_mc_def)

lemma upt_nat_pos: "0 < (n::int) \<Longrightarrow> [0..<nat n] = 0 # [Suc 0..<nat n]"
  by (simp add: upt_conv_Cons)

lemma sim_mc_no_Path:
  assumes "0 < mc_loops self" and "mc_Path self = None"
  shows "outcome (sim_mc self call s0) = Inl TypeError \<and>
         inno (final_state (sim_mc self call s0)) = snd (mc_sample self s0) \<and>
         path_calls (final_state (sim_mc self call s0)) = []"
proof -
  have b: "mc_body self call 0 st = Raise TypeError (st\<lparr>inno := snd (mc_sample self (inno st))\<rparr>)" for st
    using assms(2) by (simp add: mc_body_def Let_def case_prod_beta)
  show ?thesis
    using assms(1) by (simp add: sim_mc_def upt_nat_pos b del: upt_Suc)
qed

lemma sim_mc_no_Payoff:
  assumes "0 < mc_loops self" and "mc_Path self = Some Path" and "mc_Payoff self = None"
  shows "outcome (sim_mc self call s0) = Inl TypeError \<and>
         inno (final_state (sim_mc self call s0)) = snd (mc_sample self s0) \<and>
         length (path_calls (final_state (sim_mc self call s0))) = 1"
proof -
  have b: "mc_body self call 0 st =
      Raise TypeError (st\<lparr>inno := snd (mc_sample self (inno st)),
        path_calls := path_calls st @
          [(transform_innovations self (fst (mc_sample self (inno st))), mc_sigma self,
            mc_dt self, mc_b self)]\<rparr>)" for st
    using assms(2,3) by (simp add: mc_body_def Let_def case_prod_beta)
  show ?thesis
    using assms(1) by (simp add: sim_mc_def upt_nat_pos b del: upt_Suc)
qed

section \<open>The engines with rounding and overflow\<close>

lemma exact_fp_simps [simp]:
  "rnd exact_fp = Fin" "rexp exact_fp = (\<lambda>x. Fin (exp x))" "rsqrt exact_fp = (\<lambda>x. Fin (sqrt x))"
  "rpow exact_fp = (\<lambda>x k. Fin (x ^ k))" "rsum exact_fp = np_sum"
  by (simp_all add: exact_fp_def)

lemma fl_add_exact [simp]: "fl_add exact_fp a b = fadd a b"
  by (cases a; cases b) simp_all

lemma fl_sub_exact [simp]: "fl_sub exact_fp a b = fsub a b"
  by (simp add: fl_sub_def fsub_def)

lemma fl_mul_exact [simp]: "fl_mul exact_fp a b = fmul a b"
  by (cases a; cases b) simp_all

lemma fl_div_exact [simp]: "fl_div exact_fp a b = fdiv a b"
  by (cases a; cases b) simp_all

lemma fl_exp_exact [simp]: "fl_exp exact_fp a = fexp a"
  by (cases a) simp_all

lemma fl_sqrt_exact [simp]: "fl_sqrt exact_fp a = fsqrt a"
  by (cases a) simp_all

lemma fl_pow_exact [simp]: "fl_pow exact_fp a k = fpow a k"
  by (cases k; cases a) simp_all

lemma fl_exact_funs [simp]:
  "fl_add exact_fp = fadd" "fl_sub exact_fp = fsub" "fl_mul exact_fp = fmul"
  "fl_div exact_fp = fdiv" "fl_exp exact_fp = fexp" "fl_sqrt exact_fp = fsqrt"
  "fl_pow exact_fp = fpow"
  by (intro ext; simp)+

lemma np_sum_exact [simp]: "np_sum_fp exact_fp xs = np_sum xs"
  by (simp add: np_sum_fp_def)

lemma np_mean_exact [simp]: "np_mean_fp exact_fp xs = np_mean xs"
  by (simp add: np_mean_fp_def np_mean_def)

lemma fmul_self_abs: "fmul a a = fpow (fabs a) 2"
  by (cases a) (simp_all add: numeral_2_eq_2 power2_eq_square inf_of_sign_def)

lemma np_std_exact [simp]: "np_std_fp exact_fp xs = np_std xs"
  by (simp add: np_std_fp_def np_std_def fmul_self_abs)

lemma monotone_rounding_exact: "monotone_rounding exact_fp"
  by (simp add: monotone_rounding_def)

lemma fl_mul_commute: "fl_mul P a b = fl_mul P b a"
  by (cases a; cases b) (simp_all add: mult.commute fmul_commute)

lemma number_div_nonzero:
  "n \<noteq> 0 \<Longrightarrow> number_div P t n = Inr (fl_div P (Fin (number_value t)) (Fin (of_int n)))"
  by (cases t) simp_all

lemma euro_rows_fp_eq:
  assumes "length V = n + 1" "k \<le> n"
  shows "euro_rows_fp P (rev [n - k..<n]) Df p V =
     Inr (map (\<lambda>i. node_value (euro_update_fp P p Df) (\<lambda>i. V ! i) n (min k (n - i)) i) [0..<n + 1])"
  unfolding euro_rows_fp_def
  by (rule rows_generic[OF _ assms]) (simp add: euro_node_fp_def euro_update_fp_def)

lemma amer_rows_fp_eq:
  assumes "length V = n + 1" "k \<le> n"
  shows "amer_rows_fp P (rev [n - k..<n]) Df p K d S u z V =
     Inr (map (\<lambda>i. node_value
            (\<lambda>j i up cur. pymax (fl_mul P (Fin (of_int z))
                      (fl_sub P (fl_mul P (fl_mul P (Fin S) (fl_pow P u i))
                                   (fl_pow P d (nat \<bar>int i - int j\<bar>)))
                            (Fin K))) (euro_update_fp P p Df j i up cur))
            (\<lambda>i. V ! i) n (min k (n - i)) i) [0..<n + 1])"
  unfolding amer_rows_fp_def
  by (rule rows_generic[OF _ assms]) (simp add: amer_node_fp_def euro_update_fp_def)

lemma fp_terminal_payoff_eq:
  "fp_terminal_payoff P self z n dt =
     map (\<lambda>i. half_abs_sum P (fp_intrinsic P self z dt i (nat (n + 1) - 1 - i))) [0..<nat (n + 1)]"
  unfolding fp_terminal_payoff_def Let_def map2_upt_rev
  by (simp add: half_abs_sum_def fp_intrinsic_def del: upt_Suc)

lemma length_fp_terminal_payoff [simp]:
  "length (fp_terminal_payoff P self z n dt) = nat (n + 1)"
  by (simp add: fp_terminal_payoff_eq)

lemma fp_terminal_payoff_nth:
  "i \<le> nat n \<Longrightarrow> 0 < n \<Longrightarrow>
   fp_terminal_payoff P self z n dt ! i = half_abs_sum P (fp_intrinsic P self z dt i (nat n - i))"
  by (simp add: fp_terminal_payoff_eq nat_add_distrib del: upt_Suc)

lemma amer_rows_fp_node_value:
  assumes n: "0 < n" and j: "j \<le> nat n"
  shows "amer_rows_fp P (rev [j..<nat n]) (fp_Df P self dt) (fp_p P self dt) (fp_K self)
           (fp_d P self dt) (fp_S self) (fp_u P self dt) z (fp_terminal_payoff P self z n dt) =
     Inr (map (\<lambda>i. node_value (amer_update_fp P self z dt)
                 (\<lambda>i. fp_terminal_payoff P self z n dt ! i) (nat n) (min (nat n - j) (nat n - i)) i)
            [0..<nat n + 1])"
proof -
  let ?h = "\<lambda>j i up cur. pymax (fl_mul P (Fin (of_int z))
                      (fl_sub P (fl_mul P (fl_mul P (Fin (fp_S self)) (fl_pow P (fp_u P self dt) i))
                                   (fl_pow P (fp_d P self dt) (nat \<bar>int i - int j\<bar>)))
                            (Fin (fp_K self))))
              (euro_update_fp P (fp_p P self dt) (fp_Df P self dt) j i up cur)"
  have len: "length (fp_terminal_payoff P self z n dt) = nat n + 1"
    using n by (simp add: nat_add_distrib)
  have k: "nat n - j \<le> nat n" by simp
  have jj: "nat n - (nat n - j) = j" using j by simp
  have "amer_rows_fp P (rev [j..<nat n]) (fp_Df P self dt) (fp_p P self dt) (fp_K self)
           (fp_d P self dt) (fp_S self) (fp_u P self dt) z (fp_terminal_payoff P self z n dt) =
     Inr (map (\<lambda>i. node_value ?h
                 (\<lambda>i. fp_terminal_payoff P self z n dt ! i) (nat n) (min (nat n - j) (nat n - i)) i)
            [0..<nat n + 1])"
    using amer_rows_fp_eq[OF len k, of P "fp_Df P self dt" "fp_p P self dt" "fp_K self"
        "fp_d P self dt" "fp_S self" "fp_u P self dt" z]
    by (simp only: jj)
  also have "map (\<lambda>i. node_value ?h
                 (\<lambda>i. fp_terminal_payoff P self z n dt ! i) (nat n) (min (nat n - j) (nat n - i)) i)
            [0..<nat n + 1] =
      map (\<lambda>i. node_value (amer_update_fp P self z dt)
                 (\<lambda>i. fp_terminal_payoff P self z n dt ! i) (nat n) (min (nat n - j) (nat n - i)) i)
            [0..<nat n + 1]"
  proof (rule map_cong[OF refl])
    fix i assume "i \<in> set [0..<nat n + 1]"
    then have i: "i \<le> nat n" by (simp del: upt_Suc)
    show "node_value ?h (\<lambda>i. fp_terminal_payoff P self z n dt ! i) (nat n)
            (min (nat n - j) (nat n - i)) i =
          node_value (amer_update_fp P self z dt) (\<lambda>i. fp_terminal_payoff P self z n dt ! i) (nat n)
            (min (nat n - j) (nat n - i)) i"
      by (rule node_value_cong_h)
        (use i in \<open>simp_all add: amer_update_fp_def fp_intrinsic_def nat_diff_distrib'\<close>)
  qed
  finally show ?thesis .
qed

lemma calc_price_fp_european:
  assumes "0 < n" and "number_div P (fp_t self) n = Inr dt"
  shows "calc_price_fp P self z n ''european'' =
     Inr (Some (node_value (euro_update_fp P (fp_p P self dt) (fp_Df P self dt))
                  (\<lambda>i. half_abs_sum P (fp_intrinsic P self z dt i (nat n - i))) (nat n) (nat n) 0))"
proof -
  have len: "length (fp_terminal_payoff P self z n dt) = nat n + 1"
    using assms by (simp add: nat_add_distrib)
  have "euro_fp P (fp_terminal_payoff P self z n dt) n (fp_Df P self dt) (fp_p P self dt) =
      Inr (map (\<lambda>i. node_value (euro_update_fp P (fp_p P self dt) (fp_Df P self dt))
            (\<lambda>i. fp_terminal_payoff P self z n dt ! i) (nat n) (min (nat n) (nat n - i)) i)
            [0..<nat n + 1])"
    using euro_rows_fp_eq[OF len, of "nat n"] by (simp add: euro_fp_def)
  then have "calc_price_fp P self z n ''european'' =
      Inr (Some (node_value (euro_update_fp P (fp_p P self dt) (fp_Df P self dt))
            (\<lambda>i. fp_terminal_payoff P self z n dt ! i) (nat n) (nat n) 0))"
    by (simp only: calc_price_fp_def assms(2) sum.case Let_def first_entry_map) simp
  also have "node_value (euro_update_fp P (fp_p P self dt) (fp_Df P self dt))
            (\<lambda>i. fp_terminal_payoff P self z n dt ! i) (nat n) (nat n) 0 =
      node_value (euro_update_fp P (fp_p P self dt) (fp_Df P self dt))
                  (\<lambda>i. half_abs_sum P (fp_intrinsic P self z dt i (nat n - i))) (nat n) (nat n) 0"
    by (rule node_value_cong) (use assms in \<open>simp add: fp_terminal_payoff_nth\<close>)
  finally show ?thesis .
qed

lemma calc_price_fp_american:
  assumes "0 < n" and "number_div P (fp_t self) n = Inr dt"
  shows "calc_price_fp P self z n ''american'' =
     Inr (Some (node_value (amer_update_fp P self z dt)
                  (\<lambda>i. fp_terminal_payoff P self z n dt ! i) (nat n) (nat n) 0))"
proof -
  have "amer_fp P (fp_terminal_payoff P self z n dt) n (fp_Df P self dt) (fp_p P self dt)
          (fp_K self) (fp_d P self dt) (fp_S self) (fp_u P self dt) z =
      Inr (map (\<lambda>i. node_value (amer_update_fp P self z dt)
                 (\<lambda>i. fp_terminal_payoff P self z n dt ! i) (nat n) (min (nat n - 0) (nat n - i)) i)
            [0..<nat n + 1])"
    unfolding amer_fp_def by (rule amer_rows_fp_node_value[OF assms(1)]) simp
  then show ?thesis
    by (simp only: calc_price_fp_def assms(2) sum.case Let_def first_entry_map) simp
qed

lemma exp_1000_overflows: "(2::real) ^ 1024 \<le> exp 1000"
proof -
  have e: "(5 / 2 :: real) \<le> exp 1"
    using exp_lower_Taylor_quadratic[of "1::real"] by simp
  have "(2::real) ^ 1024 \<le> 2 ^ (5 * 250)" by (rule power_increasing) simp_all
  also have "\<dots> = ((2::real) ^ 5) ^ 250" by (rule power_mult)
  also have "\<dots> \<le> ((5 / 2) ^ 4) ^ 250" by (rule power_mono) (simp_all add: power_divide)
  also have "\<dots> = (5 / 2 :: real) ^ (4 * 250)" by (rule power_mult[symmetric])
  finally have "(2::real) ^ 1024 \<le> (5 / 2) ^ 1000" by simp
  also have "\<dots> \<le> exp 1 ^ 1000" by (rule power_mono[OF e]) simp
  also have "\<dots> = exp (of_nat 1000 * 1)" by (simp only: exp_of_nat_mult)
  finally show ?thesis by simp
qed

lemma overflow_Fin: "\<bar>x\<bar> < 2 ^ 1024 \<Longrightarrow> overflow x = Fin x"
  by (auto simp: overflow_def)

lemma overflow_fp_simps [simp]:
  "rnd overflow_fp = overflow" "rexp overflow_fp = (\<lambda>x. overflow (exp x))"
  "rsqrt overflow_fp = (\<lambda>x. overflow (sqrt x))"
  "rpow overflow_fp = (\<lambda>x k. overflow (x ^ k))" "rsum overflow_fp = foldl overflow_add (Fin 0)"
  by (simp_all add: overflow_fp_def)

lemma overflow_exp_1000: "overflow (exp 1000) = PInf"
  using exp_1000_overflows by (simp add: overflow_def)

lemma overflow_small [simp]:
  "overflow 0 = Fin 0" "overflow 1 = Fin 1" "overflow 50 = Fin 50" "overflow (- 50) = Fin (- 50)"
  "overflow 100 = Fin 100" "overflow 1000 = Fin 1000"
  by (simp_all add: overflow_Fin)

lemma fp_overflow_example_fields [simp]:
  "fp_S fp_overflow_example = 50" "fp_K fp_overflow_example = 50"
  "fp_t fp_overflow_example = Python 1" "fp_r fp_overflow_example = 0"
  "fp_b fp_overflow_example = 0" "fp_sigma fp_overflow_example = 1000"
  "fp_n fp_overflow_example = 1" "fp_type fp_overflow_example = ''european''"
  by (simp_all add: fp_overflow_example_def)

lemma fp_overflow_example_dt:
  "number_div overflow_fp (fp_t (fp_overflow_example\<lparr>fp_type := ty\<rparr>)) 1 = Inr (Fin 1)"
  by simp

lemma fp_overflow_example_u: "fp_u overflow_fp (fp_overflow_example\<lparr>fp_type := ty\<rparr>) (Fin 1) = PInf"
  by (simp add: fp_u_def overflow_exp_1000)

lemma fp_overflow_example_d: "fp_d overflow_fp (fp_overflow_example\<lparr>fp_type := ty\<rparr>) (Fin 1) = Fin 0"
  by (simp add: fp_d_def fp_overflow_example_u)

lemma fp_overflow_example_p: "fp_p overflow_fp (fp_overflow_example\<lparr>fp_type := ty\<rparr>) (Fin 1) = Fin 0"
  by (simp add: fp_p_def fp_overflow_example_u fp_overflow_example_d fl_sub_def)

lemma fp_overflow_example_Df: "fp_Df overflow_fp (fp_overflow_example\<lparr>fp_type := ty\<rparr>) (Fin 1) = Fin 1"
  by (simp add: fp_Df_def)

lemma fp_overflow_example_intrinsic:
  "fp_intrinsic overflow_fp (fp_overflow_example\<lparr>fp_type := ty\<rparr>) 1 (Fin 1) 0 (Suc 0) = Fin (- 50)"
  "fp_intrinsic overflow_fp (fp_overflow_example\<lparr>fp_type := ty\<rparr>) 1 (Fin 1) (Suc 0) 0 = PInf"
  "fp_intrinsic overflow_fp (fp_overflow_example\<lparr>fp_type := ty\<rparr>) (- 1) (Fin 1) 0 (Suc 0) = Fin 50"
  "fp_intrinsic overflow_fp (fp_overflow_example\<lparr>fp_type := ty\<rparr>) (- 1) (Fin 1) (Suc 0) 0 = NInf"
  "fp_intrinsic overflow_fp (fp_overflow_example\<lparr>fp_type := ty\<rparr>) 1 (Fin 1) 0 0 = Fin 0"
  "fp_intrinsic overflow_fp (fp_overflow_example\<lparr>fp_type := ty\<rparr>) (- 1) (Fin 1) 0 0 = Fin 0"
  by (simp_all add: fp_intrinsic_def fp_overflow_example_u fp_overflow_example_d fl_sub_def
      inf_of_sign_def)

lemma half_abs_sum_overflow:
  "half_abs_sum overflow_fp (Fin (- 50)) = Fin 0" "half_abs_sum overflow_fp (Fin 50) = Fin 50"
  "half_abs_sum overflow_fp PInf = PInf" "half_abs_sum overflow_fp NInf = NaN"
  by (simp_all add: half_abs_sum_def)

lemma fp_overflow_example_european:
  "calc_price_fp overflow_fp (fp_overflow_example\<lparr>fp_type := ty\<rparr>) 1 1 ''european'' = Inr (Some NaN)"
  "calc_price_fp overflow_fp (fp_overflow_example\<lparr>fp_type := ty\<rparr>) (- 1) 1 ''european'' = Inr (Some NaN)"
  using calc_price_fp_european[where n = 1 and z = 1, OF _ fp_overflow_example_dt[of ty]]
    calc_price_fp_european[where n = 1 and z = "- 1", OF _ fp_overflow_example_dt[of ty]]
  by (simp_all add: fp_overflow_example_p fp_overflow_example_Df fp_overflow_example_intrinsic
      half_abs_sum_overflow euro_update_fp_def fl_sub_def inf_of_sign_def)

lemma fp_overflow_example_terminal:
  "fp_terminal_payoff overflow_fp (fp_overflow_example\<lparr>fp_type := ty\<rparr>) 1 1 (Fin 1) = [Fin 0, PInf]"
  "fp_terminal_payoff overflow_fp (fp_overflow_example\<lparr>fp_type := ty\<rparr>) (- 1) 1 (Fin 1) = [Fin 50, NaN]"
  by (simp_all add: fp_terminal_payoff_eq fp_overflow_example_intrinsic half_abs_sum_overflow
      upt_conv_Cons)

lemma fp_overflow_example_american:
  "calc_price_fp overflow_fp (fp_overflow_example\<lparr>fp_type := ty\<rparr>) 1 1 ''american'' = Inr (Some (Fin 0))"
  "calc_price_fp overflow_fp (fp_overflow_example\<lparr>fp_type := ty\<rparr>) (- 1) 1 ''american'' = Inr (Some (Fin 0))"
  using calc_price_fp_american[where n = 1 and z = 1, OF _ fp_overflow_example_dt[of ty]]
    calc_price_fp_american[where n = 1 and z = "- 1", OF _ fp_overflow_example_dt[of ty]]
  by (simp_all add: fp_overflow_example_p fp_overflow_example_Df fp_overflow_example_intrinsic
      fp_overflow_example_terminal amer_update_fp_def euro_update_fp_def fl_sub_def pymax_def
      inf_of_sign_def)

lemma fp_overflow_example_spec:
  "spec_european_price_fp overflow_fp 50 50 1 0 0 1000 1 (- 1) = Fin 50"
  by (simp add: spec_european_price_fp_def spec_european_with_def Let_def overflow_exp_1000
      fl_sub_def fmax_def inf_of_sign_def)

lemma spec_european_with_node_value:
  assumes "0 < n"
  shows "spec_european_with P f (fp_S self) (fp_K self) (number_value (fp_t self)) (fp_r self)
           (fp_b self) (fp_sigma self) (nat n) z =
     node_value
       (euro_update_fp P (fp_p P self (fl_div P (Fin (number_value (fp_t self))) (Fin (of_int n))))
          (fp_Df P self (fl_div P (Fin (number_value (fp_t self))) (Fin (of_int n)))))
       (\<lambda>i. f (fp_intrinsic P self z (fl_div P (Fin (number_value (fp_t self))) (Fin (of_int n)))
                 i (nat n - i)))
       (nat n) (nat n) 0"
proof -
  let ?dt = "fl_div P (Fin (number_value (fp_t self))) (Fin (of_int n))"
  let ?p = "fp_p P self ?dt" and ?Df = "fp_Df P self ?dt"
  let ?upd = "\<lambda>up cur. fl_mul P ?Df (fl_add P (fl_mul P ?p up) (fl_mul P (fl_sub P (Fin 1) ?p) cur))"
  let ?t = "\<lambda>i. f (fp_intrinsic P self z ?dt i (nat n - i))"
  have rn: "real (nat n) = of_int n" using assms by simp
  have h: "euro_update_fp P ?p ?Df = (\<lambda>j i. ?upd)"
    by (intro ext) (simp add: euro_update_fp_def fl_mul_commute)
  have "spec_european_with P f (fp_S self) (fp_K self) (number_value (fp_t self)) (fp_r self)
           (fp_b self) (fp_sigma self) (nat n) z
      = spec_backward ?upd (nat n) (map ?t [0..<nat n + 1]) ! 0"
    unfolding spec_european_with_def Let_def rn
    by (simp only: fp_intrinsic_def fp_u_def fp_d_def fp_p_def fp_Df_def)
  also have "map ?t [0..<nat n + 1] =
      map (\<lambda>i. node_value (\<lambda>j i. ?upd) ?t (nat n) (nat n - nat n) i) [0..<Suc (nat n)]"
    by simp
  also have "spec_backward ?upd (nat n) \<dots> = [node_value (\<lambda>j i. ?upd) ?t (nat n) (nat n) 0]"
    by (rule spec_backward_eq) simp_all
  finally show ?thesis by (simp only: h nth_Cons_0)
qed

lemma euro_refines_spec_fp:
  assumes "0 < n"
  shows "calc_price_fp P self z n ''european'' =
     Inr (Some (spec_european_with P (half_abs_sum P) (fp_S self) (fp_K self)
                  (number_value (fp_t self)) (fp_r self) (fp_b self) (fp_sigma self) (nat n) z))"
proof -
  have nz: "n \<noteq> 0" using assms by simp
  show ?thesis
    by (simp only: calc_price_fp_european[OF assms number_div_nonzero[OF nz]]
        spec_european_with_node_value[OF assms])
qed

lemma spec_european_price_fp_max:
  assumes "0 < n"
    and "payoff_is_max P self z (nat n) (fl_div P (Fin (number_value (fp_t self))) (Fin (of_int n)))"
  shows "spec_european_price_fp P (fp_S self) (fp_K self) (number_value (fp_t self)) (fp_r self)
           (fp_b self) (fp_sigma self) (nat n) z =
         spec_european_with P (half_abs_sum P) (fp_S self) (fp_K self)
           (number_value (fp_t self)) (fp_r self) (fp_b self) (fp_sigma self) (nat n) z"
proof -
  let ?dt = "fl_div P (Fin (number_value (fp_t self))) (Fin (of_int n))"
  have m: "half_abs_sum P (fp_intrinsic P self z ?dt i (nat n - i)) =
      fmax (fp_intrinsic P self z ?dt i (nat n - i)) (Fin 0)" if "i \<le> nat n" for i
  proof -
    have "i \<in> set [0..<nat n + 1]" using that by (simp del: upt_Suc)
    with assms(2) show ?thesis
      unfolding payoff_is_max_def list_all_iff by blast
  qed
  show ?thesis
    unfolding spec_european_price_fp_def spec_european_with_node_value[OF assms(1)]
  proof (rule node_value_cong)
    fix m assume "m \<le> 0 + nat n"
    then have "m \<le> nat n" by simp
    then show "fmax (fp_intrinsic P self z ?dt m (nat n - m)) (Fin 0) =
        half_abs_sum P (fp_intrinsic P self z ?dt m (nat n - m))"
      by (rule m[symmetric])
  qed
qed

lemma is_fin_iff: "is_fin a \<longleftrightarrow> (\<exists>x. a = Fin x)"
  by (cases a) simp_all

lemma fle_trans: "fle a b \<Longrightarrow> fle b c \<Longrightarrow> fle a c"
  by (cases a; cases b; cases c) simp_all

lemma fle_0_cases: "fle (Fin 0) a \<longleftrightarrow> (\<exists>x. a = Fin x \<and> 0 \<le> x) \<or> a = PInf"
  by (cases a) simp_all

lemma fle_not_NaN: "fle a b \<Longrightarrow> a \<noteq> NaN \<and> b \<noteq> NaN"
  by (cases a; cases b) simp_all

lemma rnd_mono: "monotone_rounding P \<Longrightarrow> x \<le> y \<Longrightarrow> fle (rnd P x) (rnd P y)"
  by (simp add: monotone_rounding_def)

lemma rnd_nonneg: "monotone_rounding P \<Longrightarrow> 0 \<le> x \<Longrightarrow> fle (Fin 0) (rnd P x)"
  using rnd_mono[of P 0 x] by (simp add: monotone_rounding_def)

lemma rnd_not_NaN: "monotone_rounding P \<Longrightarrow> rnd P x \<noteq> NaN"
  by (simp add: monotone_rounding_def)

lemma rnd_le_PInf: "monotone_rounding P \<Longrightarrow> fle (rnd P x) PInf"
  using rnd_not_NaN[of P x] by (cases "rnd P x") simp_all

lemma rnd_unit:
  assumes "monotone_rounding P" "0 \<le> x" "x \<le> 1"
  shows "\<exists>q. rnd P x = Fin q \<and> 0 \<le> q \<and> q \<le> 1"
proof -
  have "fle (Fin 0) (rnd P x)" using assms by (simp add: rnd_nonneg)
  moreover have "fle (rnd P x) (Fin 1)"
    using rnd_mono[OF assms(1,3)] assms(1) by (simp add: monotone_rounding_def)
  ultimately show ?thesis by (cases "rnd P x") simp_all
qed

lemma half_abs_sum_nonneg:
  assumes "monotone_rounding P" and "half_abs_sum P v = Fin a"
  shows "0 \<le> a \<and> (\<exists>x. v = Fin x)"
proof (cases v)
  case (Fin x)
  have "fle (Fin 0) (rnd P (\<bar>x\<bar> + x))" by (rule rnd_nonneg[OF assms(1)]) simp
  then consider y where "rnd P (\<bar>x\<bar> + x) = Fin y" "0 \<le> y" | "rnd P (\<bar>x\<bar> + x) = PInf"
    unfolding fle_0_cases by blast
  then show ?thesis
  proof cases
    case 1
    then have "rnd P (y / 2) = Fin a" using assms(2) Fin by (simp add: half_abs_sum_def)
    moreover have "fle (Fin 0) (rnd P (y / 2))" by (rule rnd_nonneg[OF assms(1)]) (use 1 in simp)
    ultimately show ?thesis using Fin by simp
  next
    case 2
    then show ?thesis using assms(2) Fin by (simp add: half_abs_sum_def)
  qed
qed (use assms(2) in \<open>simp_all add: half_abs_sum_def\<close>)

lemma half_abs_sum_nonpos:
  assumes "monotone_rounding P" and "x \<le> 0"
  shows "half_abs_sum P (Fin x) = Fin 0"
  using assms by (simp add: half_abs_sum_def monotone_rounding_def abs_if)

lemma fl_mul_p_mono:
  assumes "monotone_rounding P" "0 \<le> pr" "0 \<le> x" "x \<le> y"
  shows "fle (Fin 0) (fl_mul P (Fin pr) (Fin x))"
    and "fle (fl_mul P (Fin pr) (Fin x)) (fl_mul P (Fin pr) (Fin y))"
  using assms by (simp_all add: rnd_nonneg rnd_mono mult_left_mono)

lemma fl_add_mono:
  assumes R: "monotone_rounding P"
    and "fle (Fin 0) a" "fle (Fin 0) b" "fle a a'" "fle b b'"
  shows "fle (Fin 0) (fl_add P a b) \<and> fle (fl_add P a b) (fl_add P a' b')"
  using assms(2-5)
  by (cases a; cases b; cases a'; cases b')
    (simp_all add: rnd_nonneg[OF R] rnd_mono[OF R] rnd_le_PInf[OF R])

lemma fl_mul_Df_mono:
  assumes R: "monotone_rounding P" and "0 < df" and "fle (Fin 0) a" "fle a a'"
  shows "fle (Fin 0) (fl_mul P a (Fin df)) \<and> fle (fl_mul P a (Fin df)) (fl_mul P a' (Fin df))"
  using assms(2-4)
  by (cases a; cases a')
    (simp_all add: rnd_nonneg[OF R] rnd_mono[OF R] rnd_le_PInf[OF R] mult_right_mono
      inf_of_sign_def)

lemma euro_update_fp_mono:
  assumes R: "monotone_rounding P" and p: "0 \<le> pr" "pr \<le> 1" and df: "0 < df"
    and e: "0 \<le> eu" "eu \<le> au" "0 \<le> ec" "ec \<le> ac"
  shows "fle (Fin 0) (euro_update_fp P (Fin pr) (Fin df) j i (Fin eu) (Fin ec)) \<and>
         fle (euro_update_fp P (Fin pr) (Fin df) j i (Fin eu) (Fin ec))
             (euro_update_fp P (Fin pr) (Fin df) j i (Fin au) (Fin ac))"
proof -
  obtain q where q: "rnd P (1 - pr) = Fin q" "0 \<le> q"
    using rnd_unit[OF R, of "1 - pr"] p by auto
  have q': "fl_sub P (Fin 1) (Fin pr) = Fin q" using q by (simp add: fl_sub_def)
  note a = fl_mul_p_mono[OF R p(1) e(1,2)]
  note b = fl_mul_p_mono[OF R q(2) e(3,4)]
  note s = fl_add_mono[OF R a(1) b(1) a(2) b(2)]
  show ?thesis
    unfolding euro_update_fp_def q'
    by (rule fl_mul_Df_mono[OF R df s[THEN conjunct1] s[THEN conjunct2]])
qed

lemma pymax_Fin_bounds:
  assumes "pymax a b = Fin v" and "b \<noteq> NaN"
  shows "fle b (Fin v) \<and> fle a (Fin v)"
  using assms by (cases a; cases b) (auto simp: pymax_def split: if_splits)

lemma lattice_order_fp:
  fixes N :: nat
  assumes R: "monotone_rounding P"
    and p: "fp_p P self dt = Fin pr" "0 \<le> pr" "pr \<le> 1"
    and Df: "fp_Df P self dt = Fin df" "0 < df"
    and T: "\<And>i. i \<le> N \<Longrightarrow> T i = half_abs_sum P (fp_intrinsic P self z dt i (N - i))"
    and F: "\<And>k i. i + k \<le> N \<Longrightarrow> is_fin (node_value (amer_update_fp P self z dt) T N k i)"
  shows "i + k \<le> N \<Longrightarrow>
    \<exists>e a. node_value (euro_update_fp P (fp_p P self dt) (fp_Df P self dt)) T N k i = Fin e \<and>
          node_value (amer_update_fp P self z dt) T N k i = Fin a \<and> 0 \<le> e \<and> e \<le> a \<and>
          (0 < k \<longrightarrow> fle (fp_intrinsic P self z dt i (N - k - i)) (Fin a))"
proof (induction k arbitrary: i)
  case 0
  obtain a where a: "T i = Fin a" using F[of i 0] 0 by (auto simp: is_fin_iff)
  have "half_abs_sum P (fp_intrinsic P self z dt i (N - i)) = Fin a"
    using T[of i] 0 a by simp
  then have "0 \<le> a" using half_abs_sum_nonneg[OF R] by blast
  then show ?case using a by simp
next
  case (Suc k)
  let ?E = "node_value (euro_update_fp P (fp_p P self dt) (fp_Df P self dt)) T N"
  let ?A = "node_value (amer_update_fp P self z dt) T N"
  obtain eu au where u: "?E k (Suc i) = Fin eu" "?A k (Suc i) = Fin au" "0 \<le> eu" "eu \<le> au"
    using Suc.IH[of "Suc i"] Suc.prems by auto
  obtain ec ac where c: "?E k i = Fin ec" "?A k i = Fin ac" "0 \<le> ec" "ec \<le> ac"
    using Suc.IH[of i] Suc.prems by auto
  obtain a where a: "?A (Suc k) i = Fin a" using F[OF Suc.prems] by (auto simp: is_fin_iff)
  let ?contE = "euro_update_fp P (Fin pr) (Fin df) (N - Suc k) i (Fin eu) (Fin ec)"
  let ?contA = "euro_update_fp P (Fin pr) (Fin df) (N - Suc k) i (Fin au) (Fin ac)"
  have m: "fle (Fin 0) ?contE" "fle ?contE ?contA"
    using euro_update_fp_mono[OF R p(2,3) Df(2) u(3,4) c(3,4)] by simp_all
  have E: "?E (Suc k) i = ?contE"
    by (simp only: node_value.simps u c) (simp only: p Df)
  have A: "pymax (fp_intrinsic P self z dt i (N - Suc k - i)) ?contA = Fin a"
    using a by (simp only: node_value.simps u c amer_update_fp_def) (simp only: p Df)
  have nn: "?contA \<noteq> NaN" using fle_not_NaN[OF m(2)] by simp
  note b = pymax_Fin_bounds[OF A nn]
  have "fle ?contE (Fin a)" by (rule fle_trans[OF m(2) b[THEN conjunct1]])
  then obtain e where e: "?contE = Fin e" "0 \<le> e" "e \<le> a"
    using m(1) by (cases ?contE) simp_all
  show ?case
    using E e a b by simp
qed

lemma amer_nodes_finite_node_value:
  assumes n: "0 < n" and fin: "amer_nodes_finite P self z n dt" and ik: "i + k \<le> nat n"
  shows "is_fin (node_value (amer_update_fp P self z dt)
                   (\<lambda>i. fp_terminal_payoff P self z n dt ! i) (nat n) k i)"
proof -
  let ?j = "nat n - k"
  let ?V = "map (\<lambda>i. node_value (amer_update_fp P self z dt)
                 (\<lambda>i. fp_terminal_payoff P self z n dt ! i) (nat n) (min (nat n - ?j) (nat n - i)) i)
            [0..<nat n + 1]"
  have j: "?j \<le> nat n" by simp
  have jm: "?j \<in> set [0..<nat n + 1]" by (simp del: upt_Suc)
  have rows: "amer_rows_fp P (rev [?j..<nat n]) (fp_Df P self dt) (fp_p P self dt) (fp_K self)
           (fp_d P self dt) (fp_S self) (fp_u P self dt) z (fp_terminal_payoff P self z n dt) = Inr ?V"
    by (rule amer_rows_fp_node_value[OF n j])
  have "list_all (\<lambda>i. is_fin (?V ! i)) [0..<?j + 1]"
    using fin jm unfolding amer_nodes_finite_def list_all_iff
    by (auto simp only: rows sum.case dest!: bspec[where x = ?j])
  moreover have "i \<in> set [0..<?j + 1]" using ik by (simp del: upt_Suc)
  ultimately have "is_fin (?V ! i)" unfolding list_all_iff by blast
  moreover have "?V ! i = node_value (amer_update_fp P self z dt)
                   (\<lambda>i. fp_terminal_payoff P self z n dt ! i) (nat n) k i"
  proof -
    have i: "i < nat n + 1 - 0" using ik by arith
    have mk: "min (nat n - ?j) (nat n - i) = k" using ik by arith
    show ?thesis using nth_map_upt[OF i, of "\<lambda>i. node_value (amer_update_fp P self z dt)
                 (\<lambda>i. fp_terminal_payoff P self z n dt ! i) (nat n) (min (nat n - ?j) (nat n - i)) i"]
      by (simp only: mk add_0 )
  qed
  ultimately show ?thesis by simp
qed

lemma as_fp_simps [simp]:
  "fp_S (as_fp self) = crr_S self" "fp_K (as_fp self) = crr_K self"
  "fp_t (as_fp self) = Python (crr_t self)" "fp_r (as_fp self) = crr_r self"
  "fp_b (as_fp self) = crr_b self" "fp_sigma (as_fp self) = crr_sigma self"
  "fp_n (as_fp self) = crr_n self" "fp_type (as_fp self) = crr_type self"
  by (simp_all add: as_fp_def)

lemma number_div_exact:
  "n \<noteq> 0 \<Longrightarrow> number_div exact_fp (Python (crr_t self)) n = Inr (Fin (crr_dt self n))"
  by (simp add: crr_dt_def)

lemma fp_u_exact [simp]: "fp_u exact_fp (as_fp self) (Fin (crr_dt self n)) = crr_u self n"
  by (simp add: fp_u_def crr_u_def)

lemma fp_d_exact [simp]: "fp_d exact_fp (as_fp self) (Fin (crr_dt self n)) = crr_d self n"
  by (simp add: fp_d_def crr_d_def)

lemma fp_p_exact [simp]: "fp_p exact_fp (as_fp self) (Fin (crr_dt self n)) = crr_p self n"
  by (simp add: fp_p_def crr_p_def)

lemma fp_Df_exact [simp]: "fp_Df exact_fp (as_fp self) (Fin (crr_dt self n)) = crr_Df self n"
  by (simp add: fp_Df_def crr_Df_def)

lemma fp_intrinsic_exact [simp]:
  "fp_intrinsic exact_fp (as_fp self) z (Fin (crr_dt self n)) i k = intrinsic self z n i k"
  by (simp add: fp_intrinsic_def intrinsic_def)

lemma fp_terminal_payoff_exact [simp]:
  "fp_terminal_payoff exact_fp (as_fp self) z n (Fin (crr_dt self n)) = terminal_payoff self z n"
  by (simp add: fp_terminal_payoff_def terminal_payoff_def)

lemma amer_node_fp_exact [simp]: "amer_node_fp exact_fp = amer_node"
  by (intro ext) (simp add: amer_node_fp_def amer_node_def)

lemma euro_node_fp_exact [simp]: "euro_node_fp exact_fp = euro_node"
  by (intro ext) (simp add: euro_node_fp_def euro_node_def)

lemma amer_rows_fp_exact [simp]:
  "amer_rows_fp exact_fp js Df p K d S u z V = amer_rows js Df p K d S u z V"
  by (simp add: amer_rows_fp_def amer_rows_def)

lemma euro_rows_fp_exact [simp]:
  "euro_rows_fp exact_fp js Df p V = euro_rows js Df p V"
  by (simp add: euro_rows_fp_def euro_rows_def)

lemma calc_price_fp_exact:
  "calc_price_fp exact_fp (as_fp self) z n ty = calc_price self z n ty"
proof (cases "n = 0")
  case True
  then show ?thesis by (simp add: calc_price_fp_def calc_price_def)
next
  case False
  show ?thesis
    using False
    by (simp add: calc_price_fp_def calc_price_def number_div_exact[OF False] Let_def
        euro_fp_def euro_def amer_fp_def amer_def del: number_div.simps)
qed

lemma half_abs_sum_exact: "\<not> is_inf v \<Longrightarrow> half_abs_sum exact_fp v = fmax v (Fin 0)"
  by (simp add: half_abs_sum_def abs_plus_self_half)

lemma payoff_is_max_exact:
  "payoff_is_max exact_fp (as_fp self) z k (Fin (crr_dt self n))"
  by (simp add: payoff_is_max_def list_all_iff half_abs_sum_exact intrinsic_no_inf del: upt_Suc)

lemma amer_nodes_finite_exact:
  assumes n: "0 < n" and p: "crr_p self n = Fin pr"
  shows "amer_nodes_finite exact_fp (as_fp self) z n (Fin (crr_dt self n))"
  unfolding amer_nodes_finite_def list_all_iff
proof
  fix j assume "j \<in> set [0..<nat n + 1]"
  then have j: "j \<le> nat n" by (simp del: upt_Suc)
  have dt: "0 \<le> crr_dt self n" using p by (rule crr_p_Fin_dt)
  show "case amer_rows_fp exact_fp (rev [j..<nat n]) (fp_Df exact_fp (as_fp self) (Fin (crr_dt self n)))
            (fp_p exact_fp (as_fp self) (Fin (crr_dt self n))) (fp_K (as_fp self))
            (fp_d exact_fp (as_fp self) (Fin (crr_dt self n))) (fp_S (as_fp self))
            (fp_u exact_fp (as_fp self) (Fin (crr_dt self n))) z
            (fp_terminal_payoff exact_fp (as_fp self) z n (Fin (crr_dt self n))) of
          Inl e \<Rightarrow> False | Inr V \<Rightarrow> \<forall>i\<in>set [0..<j + 1]. is_fin (V ! i)"
  proof (cases "j < nat n")
    case True
    obtain V where V: "amer_rows (rev [j..<nat n]) (crr_Df self n) (crr_p self n) (crr_K self)
               (crr_d self n) (crr_S self) (crr_u self n) z (terminal_payoff self z n) = Inr V"
      and fin: "\<And>i. i \<le> j \<Longrightarrow> is_fin (V ! i)"
      using amer_rows_finite[OF n p True, of z] by auto
    show ?thesis using fin by (simp add: V del: upt_Suc)
  next
    case False
    then have jn: "j = nat n" using j by simp
    have "is_fin (terminal_payoff self z n ! i)" if "i \<le> nat n" for i
      using that n by (simp add: terminal_payoff_nth intrinsic_Fin[OF dt])
    then show ?thesis by (simp add: jn amer_rows_def del: upt_Suc)
  qed
qed

lemma fp_type_update [simp]:
  "fp_u P (self\<lparr>fp_type := ty\<rparr>) dt = fp_u P self dt"
  "fp_d P (self\<lparr>fp_type := ty\<rparr>) dt = fp_d P self dt"
  "fp_p P (self\<lparr>fp_type := ty\<rparr>) dt = fp_p P self dt"
  "fp_Df P (self\<lparr>fp_type := ty\<rparr>) dt = fp_Df P self dt"
  "fp_intrinsic P (self\<lparr>fp_type := ty\<rparr>) z dt i k = fp_intrinsic P self z dt i k"
  "fp_terminal_payoff P (self\<lparr>fp_type := ty\<rparr>) z n dt = fp_terminal_payoff P self z n dt"
  by (simp_all add: fp_u_def fp_d_def fp_p_def fp_Df_def fp_intrinsic_def fp_terminal_payoff_def)

lemma calc_price_fp_type_update [simp]:
  "calc_price_fp P (self\<lparr>fp_type := ty\<rparr>) z n ty' = calc_price_fp P self z n ty'"
  by (simp add: calc_price_fp_def Let_def split: sum.splits)

lemma american_dominates_european_fp:
  assumes R: "monotone_rounding P" and n: "0 < n"
    and dt: "number_div P (fp_t self) n = Inr dt"
    and p: "fp_p P self dt = Fin pr" "0 \<le> pr" "pr \<le> 1"
    and Df: "fp_Df P self dt = Fin df" "0 < df"
    and fin: "amer_nodes_finite P self z n dt"
  shows "\<exists>a e. calc_price_fp P self z n ''american'' = Inr (Some (Fin a)) \<and>
               calc_price_fp P self z n ''european'' = Inr (Some (Fin e)) \<and> e \<le> a"
proof -
  let ?T = "\<lambda>i. fp_terminal_payoff P self z n dt ! i"
  have T: "?T i = half_abs_sum P (fp_intrinsic P self z dt i (nat n - i))" if "i \<le> nat n" for i
    using that n by (rule fp_terminal_payoff_nth)
  have F: "is_fin (node_value (amer_update_fp P self z dt) ?T (nat n) k i)" if "i + k \<le> nat n" for k i
    using amer_nodes_finite_node_value[OF n fin that] .
  obtain e a where
    e: "node_value (euro_update_fp P (fp_p P self dt) (fp_Df P self dt)) ?T (nat n) (nat n) 0 = Fin e"
    and a: "node_value (amer_update_fp P self z dt) ?T (nat n) (nat n) 0 = Fin a" and ea: "e \<le> a"
    using lattice_order_fp[OF R p Df T F, of 0 "nat n"] by auto
  have "node_value (euro_update_fp P (fp_p P self dt) (fp_Df P self dt))
                  (\<lambda>i. half_abs_sum P (fp_intrinsic P self z dt i (nat n - i))) (nat n) (nat n) 0 =
        node_value (euro_update_fp P (fp_p P self dt) (fp_Df P self dt)) ?T (nat n) (nat n) 0"
    by (rule node_value_cong) (simp add: T)
  then show ?thesis
    using e a ea calc_price_fp_european[OF n dt, of z] calc_price_fp_american[OF n dt, of z]
    by simp
qed

lemma fp_example_fields:
  "fp_S fp_example = 50" "fp_K fp_example = 50" "fp_t fp_example = Python (5 / 12)"
  "fp_r fp_example = 1 / 10" "fp_b fp_example = 1 / 10" "fp_sigma fp_example = 4 / 10"
  "fp_n fp_example = 5" "fp_type fp_example = ''european''"
  by (simp_all add: fp_example_def crr_example_def)

lemma fp_example_dt:
  "fl_div exact_fp (Fin (5 / 12)) (Fin (of_int 5)) = Fin (crr_dt crr_example 5)"
  by (simp add: crr_dt_def crr_example_def)

lemma fp_overflow_example_european_update:
  "fp_overflow_example\<lparr>fp_type := ''european''\<rparr> = fp_overflow_example"
  by (simp add: fp_overflow_example_def)

lemma fp_example_exact:
  "number_div exact_fp (fp_t fp_example) (fp_n fp_example) = Inr (Fin (1 / 12))"
  "Fin (1 / 12) = Fin (crr_dt crr_example 5)"
  by (simp_all add: fp_example_fields crr_dt_def crr_example_def)

lemma fp_example_p:
  "\<exists>pr. fp_p exact_fp fp_example (Fin (1 / 12)) = Fin pr \<and> 0 \<le> pr \<and> pr \<le> 1"
  unfolding fp_example_exact(2) fp_example_def using crr_example_p by simp

lemma fp_example_Df:
  "\<exists>df. fp_Df exact_fp fp_example (Fin (1 / 12)) = Fin df \<and> 0 < df"
  unfolding fp_example_exact(2) fp_example_def by (simp add: crr_Df_Fin)

lemma fp_example_finite: "amer_nodes_finite exact_fp fp_example z 5 (Fin (1 / 12))"
proof -
  obtain pr where "crr_p crr_example 5 = Fin pr" using crr_example_p by blast
  then show ?thesis
    unfolding fp_example_exact(2) fp_example_def by (intro amer_nodes_finite_exact) simp_all
qed

lemma calc_price_fp_n0_Python:
  "fp_t self = Python x \<Longrightarrow> calc_price_fp P self z 0 ty = Inl ZeroDivisionError"
  by (simp add: calc_price_fp_def)

lemma calc_price_fp_n0_Numpy:
  assumes "fp_t self = Numpy x" and "ty = ''european'' \<or> ty = ''american''"
  shows "calc_price_fp P self z 0 ty =
     Inr (Some (half_abs_sum P (fp_intrinsic P self z (inf_of_sign x) 0 0)))"
  using assms
  by (auto simp: calc_price_fp_def Let_def fp_terminal_payoff_eq euro_fp_def euro_rows_fp_def
      amer_fp_def amer_rows_fp_def first_entry_def)

lemma calc_price_fp_unknown:
  assumes "n \<noteq> 0 \<or> (\<exists>x. fp_t self = Numpy x)" and "ty \<noteq> ''european''" and "ty \<noteq> ''american''"
  shows "calc_price_fp P self z n ty = Inr None"
  using assms by (cases "fp_t self") (auto simp: calc_price_fp_def Let_def)

lemma calc_price_fp_negative:
  assumes "n < 0" and "ty = ''european'' \<or> ty = ''american''"
  shows "calc_price_fp P self z n ty = Inl IndexError"
proof -
  have e: "nat n = 0" "fp_terminal_payoff P self z n dt = []" for dt
    using assms(1) by (simp_all add: fp_terminal_payoff_eq)
  have nz: "n \<noteq> 0" using assms(1) by simp
  show ?thesis
    using assms(2)
    by (auto simp: calc_price_fp_def number_div_nonzero[OF nz] Let_def e euro_fp_def
        euro_rows_fp_def amer_fp_def amer_rows_fp_def first_entry_def simp del: fl_div.simps)
qed

lemma fp_untyped_examples:
  "fp_n fp_untyped_example = 5" "fp_type fp_untyped_example = ''bermudan''"
  "fp_n fp_numpy_zero_steps_example = 0" "fp_t fp_numpy_zero_steps_example = Numpy (5 / 12)"
  "fp_type fp_numpy_zero_steps_example = ''bermudan''"
  "fp_n fp_zero_steps_example = 0" "fp_t fp_zero_steps_example = Python (5 / 12)"
  "fp_type fp_zero_steps_example = ''bermudan''"
  by (simp_all add: fp_untyped_example_def fp_numpy_zero_steps_example_def
      fp_zero_steps_example_def fp_example_fields)

lemma number_div_cases:
  "path_length \<noteq> 0 \<or> t = Numpy x \<Longrightarrow>
   number_div P t path_length = Inr (fl_div P (Fin (number_value t)) (Fin (of_int path_length)))"
  by (cases t) auto

lemma standardize_fp_exact [simp]: "standardize_fp exact_fp eps = standardize eps"
  by (simp add: standardize_fp_def standardize_def)

lemma transform_innovations_fp_exact [simp]:
  "transform_innovations_fp exact_fp self eps0 = transform_innovations self eps0"
  by (simp add: transform_innovations_fp_def transform_innovations_def)



lemma overflow_huge [simp]:
  "overflow huge = Fin huge" "overflow (- huge) = Fin (- huge)"
  "overflow (huge * huge) = PInf"
proof -
  have lt: "(2::real) ^ 600 < 2 ^ 1024" by (rule power_strict_increasing) simp_all
  have ge: "(2::real) ^ 1024 \<le> 2 ^ 600 * 2 ^ 600"
    unfolding power_add[symmetric] by (rule power_increasing) simp_all
  have pos: "(0::real) < 2 ^ 600" by (rule zero_less_power) simp
  show "overflow huge = Fin huge" "overflow (- huge) = Fin (- huge)"
    unfolding huge_def using lt pos by (simp_all only: overflow_Fin abs_minus_cancel abs_of_pos)
  show "overflow (huge * huge) = PInf"
    unfolding huge_def using ge by (simp only: overflow_def if_True)
qed




lemma mc_body_fp_exact: "mc_body_fp exact_fp self call i st = mc_body self call i st"
  by (simp add: mc_body_fp_def mc_body_def Let_def case_prod_beta split: option.splits)

section \<open>The claims about the lattice engine\<close>

text \<open>
  C4, as the code has it. For every input with \<open>n \<ge> 1\<close>, in every float arithmetic and
  for either kind of \<open>t\<close>, the European price that \<open>CRRBinomialTreeOption.call()\<close>
  (\<open>z = 1\<close>) and \<open>put()\<close> (\<open>z = -1\<close>) return is the result of the specified algorithm
  taken with the terminal payoff of the code, \<open>(abs(v) + v) / 2\<close> of the exercise value
  \<open>v = z * (S * u ** i * d ** (n - i) - K)\<close>: the loops of \<open>_euro\<close>, which update one array
  in place, compute the value at node 0 of the backward induction on shrinking arrays.
  Where \<open>(abs(v) + v) / 2\<close> is \<open>max(v, 0)\<close> at every terminal node, the price is the
  result of the algorithm as it is specified. \<open>sigma > 0\<close> is not needed.
\<close>

theorem european_price_refines_spec:
  assumes "1 \<le> fp_n self" and "fp_type self = ''european''"
  shows "call_fp P self =
           Inr (Some (spec_european_with P (half_abs_sum P) (fp_S self) (fp_K self)
                        (number_value (fp_t self)) (fp_r self) (fp_b self) (fp_sigma self)
                        (nat (fp_n self)) 1)) \<and>
         put_fp P self =
           Inr (Some (spec_european_with P (half_abs_sum P) (fp_S self) (fp_K self)
                        (number_value (fp_t self)) (fp_r self) (fp_b self) (fp_sigma self)
                        (nat (fp_n self)) (- 1))) \<and>
         (payoff_is_max P self 1 (nat (fp_n self))
            (fl_div P (Fin (number_value (fp_t self))) (Fin (of_int (fp_n self)))) \<longrightarrow>
          call_fp P self =
            Inr (Some (spec_european_price_fp P (fp_S self) (fp_K self)
                         (number_value (fp_t self)) (fp_r self) (fp_b self) (fp_sigma self)
                         (nat (fp_n self)) 1))) \<and>
         (payoff_is_max P self (- 1) (nat (fp_n self))
            (fl_div P (Fin (number_value (fp_t self))) (Fin (of_int (fp_n self)))) \<longrightarrow>
          put_fp P self =
            Inr (Some (spec_european_price_fp P (fp_S self) (fp_K self)
                         (number_value (fp_t self)) (fp_r self) (fp_b self) (fp_sigma self)
                         (nat (fp_n self)) (- 1))))"
proof -
  have n: "0 < fp_n self" using assms(1) by simp
  have c: "call_fp P self =
           Inr (Some (spec_european_with P (half_abs_sum P) (fp_S self) (fp_K self)
                        (number_value (fp_t self)) (fp_r self) (fp_b self) (fp_sigma self)
                        (nat (fp_n self)) 1))"
    and p: "put_fp P self =
           Inr (Some (spec_european_with P (half_abs_sum P) (fp_S self) (fp_K self)
                        (number_value (fp_t self)) (fp_r self) (fp_b self) (fp_sigma self)
                        (nat (fp_n self)) (- 1)))"
    unfolding call_fp_def put_fp_def assms(2) by (simp_all only: euro_refines_spec_fp[OF n])
  show ?thesis
    using c p spec_european_price_fp_max[OF n, of P self 1]
      spec_european_price_fp_max[OF n, of P self "- 1"]
    by simp
qed

theorem european_price_refines_spec_witness:
  "1 \<le> fp_n fp_example \<and> fp_type fp_example = ''european'' \<and>
   payoff_is_max exact_fp fp_example 1 5 (fl_div exact_fp (Fin (5 / 12)) (Fin (of_int 5))) \<and>
   payoff_is_max exact_fp fp_example (- 1) 5 (fl_div exact_fp (Fin (5 / 12)) (Fin (of_int 5))) \<and>
   call_fp exact_fp fp_example =
     Inr (Some (spec_european_with exact_fp (half_abs_sum exact_fp) 50 50 (5 / 12) (1 / 10) (1 / 10)
                  (4 / 10) 5 1)) \<and>
   put_fp exact_fp fp_example =
     Inr (Some (spec_european_with exact_fp (half_abs_sum exact_fp) 50 50 (5 / 12) (1 / 10) (1 / 10)
                  (4 / 10) 5 (- 1))) \<and>
   call_fp exact_fp fp_example =
     Inr (Some (spec_european_price_fp exact_fp 50 50 (5 / 12) (1 / 10) (1 / 10) (4 / 10) 5 1)) \<and>
   put_fp exact_fp fp_example =
     Inr (Some (spec_european_price_fp exact_fp 50 50 (5 / 12) (1 / 10) (1 / 10) (4 / 10) 5 (- 1)))"
proof -
  have h: "1 \<le> fp_n fp_example" "fp_type fp_example = ''european''"
    by (simp_all add: fp_example_fields)
  have f: "number_value (fp_t fp_example) = 5 / 12" "nat (fp_n fp_example) = 5"
    by (simp_all add: fp_example_fields)
  have m: "payoff_is_max exact_fp fp_example z 5 (fl_div exact_fp (Fin (5 / 12)) (Fin (of_int 5)))"
    for z
    unfolding fp_example_dt fp_example_def by (rule payoff_is_max_exact)
  note T = european_price_refines_spec[OF h, of exact_fp,
      unfolded f, unfolded fp_example_fields(1,2,4,5,6,7)]
  show ?thesis
    using h m[of 1] m[of "- 1"] T[THEN conjunct1] T[THEN conjunct2, THEN conjunct1]
      T[THEN conjunct2, THEN conjunct2, THEN conjunct1, THEN mp, OF m[of 1]]
      T[THEN conjunct2, THEN conjunct2, THEN conjunct2, THEN mp, OF m[of "- 1"]]
    by (intro conjI)
qed

text \<open>
  C4 as stated fails when \<open>u\<close> overflows: at \<open>S = K = 50\<close>, \<open>t = 1\<close>, \<open>r = b = 0\<close>,
  \<open>sigma = 1000\<close>, \<open>n = 1\<close>, \<open>np.exp(1000)\<close> is \<open>inf\<close>, the exercise value of the upper node
  of the put is \<open>-inf\<close>, its payoff \<open>(abs(-inf) + -inf) / 2\<close> is \<open>NaN\<close>, and \<open>put()\<close> returns
  \<open>NaN\<close> where the specified algorithm, with \<open>max(-inf, 0) = 0\<close>, gives 50. No result of
  this computation is rounded.
\<close>

theorem european_price_counterexample:
  "1 \<le> fp_n fp_overflow_example \<and> 0 < fp_sigma fp_overflow_example \<and>
   fp_type fp_overflow_example = ''european'' \<and>
   fp_terminal_payoff overflow_fp fp_overflow_example (- 1) 1 (Fin 1) = [Fin 50, NaN] \<and>
   put_fp overflow_fp fp_overflow_example = Inr (Some NaN) \<and>
   spec_european_price_fp overflow_fp 50 50 1 0 0 1000 1 (- 1) = Fin 50 \<and>
   put_fp overflow_fp fp_overflow_example \<noteq>
     Inr (Some (spec_european_price_fp overflow_fp (fp_S fp_overflow_example)
       (fp_K fp_overflow_example) (number_value (fp_t fp_overflow_example))
       (fp_r fp_overflow_example) (fp_b fp_overflow_example) (fp_sigma fp_overflow_example)
       (nat (fp_n fp_overflow_example)) (- 1)))"
proof -
  have f: "nat (fp_n fp_overflow_example) = 1" "number_value (fp_t fp_overflow_example) = 1"
    by simp_all
  have p: "put_fp overflow_fp fp_overflow_example = Inr (Some NaN)"
    using fp_overflow_example_european(2)[of "''european''"]
    by (simp add: put_fp_def fp_overflow_example_european_update)
  have t: "fp_terminal_payoff overflow_fp fp_overflow_example (- 1) 1 (Fin 1) = [Fin 50, NaN]"
    using fp_overflow_example_terminal(2)[of "''european''"]
    by (simp only: fp_overflow_example_european_update)
  show ?thesis
    by (simp only: f) (simp only: fp_overflow_example_fields fp_overflow_example_spec p t, simp)
qed

text \<open>
  C5, as the code has it. In a float arithmetic whose rounding is monotone, for
  \<open>n \<ge> 1\<close>, a risk-neutral probability that is a number in \<open>[0, 1]\<close>, a discount factor
  that is a positive number, and American-style backward inductions (of the call and of
  the put) all of whose node values are numbers, the four prices are numbers and the
  American-style price is at least the European-style price of the same parameters, for
  \<open>call()\<close> and for \<open>put()\<close>.
\<close>

theorem american_ge_european:
  assumes "monotone_rounding P" and "1 \<le> fp_n self"
    and "number_div P (fp_t self) (fp_n self) = Inr dt"
    and "fp_p P self dt = Fin pr" and "0 \<le> pr" and "pr \<le> 1"
    and "fp_Df P self dt = Fin df" and "0 < df"
    and "amer_nodes_finite P self 1 (fp_n self) dt"
    and "amer_nodes_finite P self (- 1) (fp_n self) dt"
  shows "\<exists>ac ec ap ep.
           call_fp P (self\<lparr>fp_type := ''american''\<rparr>) = Inr (Some (Fin ac)) \<and>
           call_fp P (self\<lparr>fp_type := ''european''\<rparr>) = Inr (Some (Fin ec)) \<and> ec \<le> ac \<and>
           put_fp P (self\<lparr>fp_type := ''american''\<rparr>) = Inr (Some (Fin ap)) \<and>
           put_fp P (self\<lparr>fp_type := ''european''\<rparr>) = Inr (Some (Fin ep)) \<and> ep \<le> ap"
proof -
  have n: "0 < fp_n self" using assms(2) by simp
  obtain ac ec where c: "calc_price_fp P self 1 (fp_n self) ''american'' = Inr (Some (Fin ac))"
      "calc_price_fp P self 1 (fp_n self) ''european'' = Inr (Some (Fin ec))" "ec \<le> ac"
    using american_dominates_european_fp[OF assms(1) n assms(3-8) assms(9)] by blast
  obtain ap ep where p: "calc_price_fp P self (- 1) (fp_n self) ''american'' = Inr (Some (Fin ap))"
      "calc_price_fp P self (- 1) (fp_n self) ''european'' = Inr (Some (Fin ep))" "ep \<le> ap"
    using american_dominates_european_fp[OF assms(1) n assms(3-8) assms(10)] by blast
  show ?thesis
    using c p by (simp add: call_fp_def put_fp_def)
qed

theorem american_ge_european_witness:
  "monotone_rounding exact_fp \<and> 1 \<le> fp_n fp_example \<and>
   number_div exact_fp (fp_t fp_example) (fp_n fp_example) = Inr (Fin (1 / 12)) \<and>
   (\<exists>pr. fp_p exact_fp fp_example (Fin (1 / 12)) = Fin pr \<and> 0 \<le> pr \<and> pr \<le> 1) \<and>
   (\<exists>df. fp_Df exact_fp fp_example (Fin (1 / 12)) = Fin df \<and> 0 < df) \<and>
   amer_nodes_finite exact_fp fp_example 1 (fp_n fp_example) (Fin (1 / 12)) \<and>
   amer_nodes_finite exact_fp fp_example (- 1) (fp_n fp_example) (Fin (1 / 12)) \<and>
   (\<exists>ac ec ap ep.
      call_fp exact_fp (fp_example\<lparr>fp_type := ''american''\<rparr>) = Inr (Some (Fin ac)) \<and>
      call_fp exact_fp (fp_example\<lparr>fp_type := ''european''\<rparr>) = Inr (Some (Fin ec)) \<and> ec \<le> ac \<and>
      put_fp exact_fp (fp_example\<lparr>fp_type := ''american''\<rparr>) = Inr (Some (Fin ap)) \<and>
      put_fp exact_fp (fp_example\<lparr>fp_type := ''european''\<rparr>) = Inr (Some (Fin ep)) \<and> ep \<le> ap)"
proof -
  have n: "1 \<le> fp_n fp_example" by (simp add: fp_example_fields)
  obtain pr where p: "fp_p exact_fp fp_example (Fin (1 / 12)) = Fin pr" "0 \<le> pr" "pr \<le> 1"
    using fp_example_p by blast
  obtain df where d: "fp_Df exact_fp fp_example (Fin (1 / 12)) = Fin df" "0 < df"
    using fp_example_Df by blast
  have f: "amer_nodes_finite exact_fp fp_example z (fp_n fp_example) (Fin (1 / 12))" for z
    using fp_example_finite[of z] by (simp add: fp_example_fields)
  show ?thesis
    using monotone_rounding_exact n fp_example_exact(1) p d f[of 1] f[of "- 1"]
      american_ge_european[OF monotone_rounding_exact n fp_example_exact(1) p d f f]
    by blast
qed

text \<open>
  C5 as stated fails when \<open>u\<close> overflows: at \<open>S = K = 50\<close>, \<open>t = 1\<close>, \<open>r = b = 0\<close>,
  \<open>sigma = 1000\<close>, \<open>n = 1\<close>, \<open>u\<close> is \<open>inf\<close>, \<open>d\<close> is 0 and \<open>p\<close> is 0, a probability in
  \<open>[0, 1]\<close>; the European-style prices are \<open>NaN\<close> (from \<open>0 * inf\<close>, for the put from the
  payoff \<open>NaN\<close>) and the American-style prices are 0, and \<open>NaN\<close> is not below 0 or equal
  to it.
\<close>

theorem american_ge_european_counterexample:
  "0 < fp_sigma fp_overflow_example \<and> 1 \<le> fp_n fp_overflow_example \<and>
   number_div overflow_fp (fp_t fp_overflow_example) (fp_n fp_overflow_example) = Inr (Fin 1) \<and>
   fp_u overflow_fp fp_overflow_example (Fin 1) = PInf \<and>
   fp_p overflow_fp fp_overflow_example (Fin 1) = Fin 0 \<and>
   call_fp overflow_fp (fp_overflow_example\<lparr>fp_type := ''american''\<rparr>) = Inr (Some (Fin 0)) \<and>
   call_fp overflow_fp (fp_overflow_example\<lparr>fp_type := ''european''\<rparr>) = Inr (Some NaN) \<and>
   put_fp overflow_fp (fp_overflow_example\<lparr>fp_type := ''american''\<rparr>) = Inr (Some (Fin 0)) \<and>
   put_fp overflow_fp (fp_overflow_example\<lparr>fp_type := ''european''\<rparr>) = Inr (Some NaN) \<and>
   \<not> fle NaN (Fin 0)"
  using fp_overflow_example_u[of "''european''"] fp_overflow_example_p[of "''european''"]
    fp_overflow_example_american[of "''american''"] fp_overflow_example_european[of "''european''"]
  by (simp add: call_fp_def put_fp_def fp_overflow_example_european_update)

text \<open>
  C6, as the code has it. In a float arithmetic whose rounding is monotone, in a lattice
  computation with \<open>n \<ge> 1\<close>, a probability that is a number in \<open>[0, 1]\<close>, a discount
  factor that is a positive number, and an American-style backward induction all of whose
  node values are numbers: every exercise value at a terminal node is a number \<open>x\<close>, the
  terminal payoff is a number \<open>v \<ge> 0\<close>, and \<open>v = max(x, 0)\<close> when \<open>x \<le> 0\<close> or when
  doubling \<open>x\<close> and halving the double are exact; and after each backward step \<open>j\<close> of the
  American-style induction, every node \<open>i \<le> j\<close> holds a number that is non-negative and
  at least the exercise value of the node.
\<close>

theorem lattice_values_dominate_intrinsic:
  assumes "monotone_rounding P" and "1 \<le> n"
    and "fp_p P self dt = Fin pr" and "0 \<le> pr" and "pr \<le> 1"
    and "fp_Df P self dt = Fin df" and "0 < df"
    and "amer_nodes_finite P self z n dt"
  shows "(\<forall>i\<le>nat n. \<exists>x v. fp_intrinsic P self z dt i (nat n - i) = Fin x \<and>
        fp_terminal_payoff P self z n dt ! i = Fin v \<and> 0 \<le> v \<and>
        (x \<le> 0 \<or> rnd P (x + x) = Fin (x + x) \<and> rnd P x = Fin x \<longrightarrow> v = max x 0)) \<and>
    (\<forall>j<nat n. \<exists>V.
        amer_rows_fp P (rev [j..<nat n]) (fp_Df P self dt) (fp_p P self dt) (fp_K self)
          (fp_d P self dt) (fp_S self) (fp_u P self dt) z (fp_terminal_payoff P self z n dt) = Inr V \<and>
        (\<forall>i\<le>j. \<exists>v. V ! i = Fin v \<and> 0 \<le> v \<and> fle (fp_intrinsic P self z dt i (j - i)) (Fin v)))"
proof (intro conjI allI impI)
  have n: "0 < n" using assms(2) by simp
  let ?T = "\<lambda>i. fp_terminal_payoff P self z n dt ! i"
  let ?A = "node_value (amer_update_fp P self z dt) ?T (nat n)"
  have T: "?T i = half_abs_sum P (fp_intrinsic P self z dt i (nat n - i))" if "i \<le> nat n" for i
    using that n by (rule fp_terminal_payoff_nth)
  have F: "is_fin (?A k i)" if "i + k \<le> nat n" for k i
    using amer_nodes_finite_node_value[OF n assms(8) that] .
  have L: "\<exists>e a. node_value (euro_update_fp P (fp_p P self dt) (fp_Df P self dt)) ?T (nat n) k i = Fin e \<and>
          ?A k i = Fin a \<and> 0 \<le> e \<and> e \<le> a \<and>
          (0 < k \<longrightarrow> fle (fp_intrinsic P self z dt i (nat n - k - i)) (Fin a))"
    if "i + k \<le> nat n" for i k
    by (rule lattice_order_fp[OF assms(1) assms(3-7) _ _ that]) (fact T, fact F)
  show "\<exists>x v. fp_intrinsic P self z dt i (nat n - i) = Fin x \<and>
        fp_terminal_payoff P self z n dt ! i = Fin v \<and> 0 \<le> v \<and>
        (x \<le> 0 \<or> rnd P (x + x) = Fin (x + x) \<and> rnd P x = Fin x \<longrightarrow> v = max x 0)"
    if i: "i \<le> nat n" for i
  proof -
    obtain v where v: "?T i = Fin v" using F[of i 0] i by (auto simp: is_fin_iff)
    then have h: "half_abs_sum P (fp_intrinsic P self z dt i (nat n - i)) = Fin v"
      using T[OF i] by simp
    then obtain x where x: "fp_intrinsic P self z dt i (nat n - i) = Fin x" and v0: "0 \<le> v"
      using half_abs_sum_nonneg[OF assms(1) h] by blast
    have "v = max x 0" if "x \<le> 0 \<or> rnd P (x + x) = Fin (x + x) \<and> rnd P x = Fin x"
    proof (cases "x \<le> 0")
      case True
      then show ?thesis using h half_abs_sum_nonpos[OF assms(1) True] by (simp add: x)
    next
      case False
      then have "rnd P (x + x) = Fin (x + x)" "rnd P x = Fin x" using that by auto
      then show ?thesis using h False by (simp add: x half_abs_sum_def)
    qed
    then show ?thesis using x v v0 by blast
  qed
  show "\<exists>V. amer_rows_fp P (rev [j..<nat n]) (fp_Df P self dt) (fp_p P self dt) (fp_K self)
          (fp_d P self dt) (fp_S self) (fp_u P self dt) z (fp_terminal_payoff P self z n dt) = Inr V \<and>
        (\<forall>i\<le>j. \<exists>v. V ! i = Fin v \<and> 0 \<le> v \<and> fle (fp_intrinsic P self z dt i (j - i)) (Fin v))"
    if j: "j < nat n" for j
  proof -
    let ?V = "map (\<lambda>i. ?A (min (nat n - j) (nat n - i)) i) [0..<nat n + 1]"
    have rows: "amer_rows_fp P (rev [j..<nat n]) (fp_Df P self dt) (fp_p P self dt) (fp_K self)
          (fp_d P self dt) (fp_S self) (fp_u P self dt) z (fp_terminal_payoff P self z n dt) = Inr ?V"
      by (rule amer_rows_fp_node_value[OF n]) (use j in simp)
    have "\<exists>v. ?V ! i = Fin v \<and> 0 \<le> v \<and> fle (fp_intrinsic P self z dt i (j - i)) (Fin v)"
      if i: "i \<le> j" for i
    proof -
      have ik: "i + (nat n - j) \<le> nat n" and k: "0 < nat n - j"
        and m: "min (nat n - j) (nat n - i) = nat n - j" and jj: "nat n - (nat n - j) - i = j - i"
        using i j by arith+
      have i1: "i < nat n + 1 - 0" using i j by arith
      have Vi: "?V ! i = ?A (nat n - j) i"
        using nth_map_upt[OF i1, of "\<lambda>i. ?A (min (nat n - j) (nat n - i)) i"]
        by (simp only: m add_0)
      obtain e a where "?A (nat n - j) i = Fin a" "0 \<le> e" "e \<le> a"
        "fle (fp_intrinsic P self z dt i (nat n - (nat n - j) - i)) (Fin a)"
        using L[OF ik] k by blast
      then show ?thesis unfolding Vi jj by auto
    qed
    then show ?thesis using rows by blast
  qed
qed

theorem lattice_values_dominate_intrinsic_witness:
  "monotone_rounding exact_fp \<and> (1::int) \<le> 5 \<and>
   (\<exists>pr. fp_p exact_fp fp_example (Fin (1 / 12)) = Fin pr \<and> 0 \<le> pr \<and> pr \<le> 1) \<and>
   (\<exists>df. fp_Df exact_fp fp_example (Fin (1 / 12)) = Fin df \<and> 0 < df) \<and>
   amer_nodes_finite exact_fp fp_example 1 5 (Fin (1 / 12)) \<and>
   (\<exists>x v. fp_intrinsic exact_fp fp_example 1 (Fin (1 / 12)) 2 (nat 5 - 2) = Fin x \<and>
        fp_terminal_payoff exact_fp fp_example 1 5 (Fin (1 / 12)) ! 2 = Fin v \<and> 0 \<le> v \<and>
        v = max x 0) \<and>
   (\<exists>V v.
        amer_rows_fp exact_fp (rev [3..<nat 5]) (fp_Df exact_fp fp_example (Fin (1 / 12)))
          (fp_p exact_fp fp_example (Fin (1 / 12))) (fp_K fp_example)
          (fp_d exact_fp fp_example (Fin (1 / 12))) (fp_S fp_example)
          (fp_u exact_fp fp_example (Fin (1 / 12))) 1
          (fp_terminal_payoff exact_fp fp_example 1 5 (Fin (1 / 12))) = Inr V \<and>
        V ! 1 = Fin v \<and> 0 \<le> v \<and>
        fle (fp_intrinsic exact_fp fp_example 1 (Fin (1 / 12)) 1 (3 - 1)) (Fin v))"
proof -
  have n: "(1::int) \<le> 5" by simp
  obtain pr where p: "fp_p exact_fp fp_example (Fin (1 / 12)) = Fin pr" "0 \<le> pr" "pr \<le> 1"
    using fp_example_p by blast
  obtain df where d: "fp_Df exact_fp fp_example (Fin (1 / 12)) = Fin df" "0 < df"
    using fp_example_Df by blast
  note f = fp_example_finite[of 1]
  note T = lattice_values_dominate_intrinsic[OF monotone_rounding_exact n p d f]
  have "(2::nat) \<le> nat 5" by simp
  with T obtain x v where
    a: "fp_intrinsic exact_fp fp_example 1 (Fin (1 / 12)) 2 (nat 5 - 2) = Fin x"
      "fp_terminal_payoff exact_fp fp_example 1 5 (Fin (1 / 12)) ! 2 = Fin v" "0 \<le> v"
      "x \<le> 0 \<or> rnd exact_fp (x + x) = Fin (x + x) \<and> rnd exact_fp x = Fin x \<longrightarrow> v = max x 0"
    by blast
  have "v = max x 0" using a(4) by simp
  with a have a': "\<exists>x v. fp_intrinsic exact_fp fp_example 1 (Fin (1 / 12)) 2 (nat 5 - 2) = Fin x \<and>
        fp_terminal_payoff exact_fp fp_example 1 5 (Fin (1 / 12)) ! 2 = Fin v \<and> 0 \<le> v \<and>
        v = max x 0"
    by blast
  have "(3::nat) < nat 5" by simp
  with T obtain V where V: "amer_rows_fp exact_fp (rev [3..<nat 5]) (fp_Df exact_fp fp_example (Fin (1 / 12)))
          (fp_p exact_fp fp_example (Fin (1 / 12))) (fp_K fp_example)
          (fp_d exact_fp fp_example (Fin (1 / 12))) (fp_S fp_example)
          (fp_u exact_fp fp_example (Fin (1 / 12))) 1
          (fp_terminal_payoff exact_fp fp_example 1 5 (Fin (1 / 12))) = Inr V"
    and W: "\<forall>i\<le>3. \<exists>v. V ! i = Fin v \<and> 0 \<le> v \<and>
        fle (fp_intrinsic exact_fp fp_example 1 (Fin (1 / 12)) i (3 - i)) (Fin v)"
    by blast
  have "(1::nat) \<le> 3" by simp
  with W have "\<exists>v. V ! 1 = Fin v \<and> 0 \<le> v \<and>
        fle (fp_intrinsic exact_fp fp_example 1 (Fin (1 / 12)) 1 (3 - 1)) (Fin v)"
    by blast
  with V have c: "\<exists>V v.
        amer_rows_fp exact_fp (rev [3..<nat 5]) (fp_Df exact_fp fp_example (Fin (1 / 12)))
          (fp_p exact_fp fp_example (Fin (1 / 12))) (fp_K fp_example)
          (fp_d exact_fp fp_example (Fin (1 / 12))) (fp_S fp_example)
          (fp_u exact_fp fp_example (Fin (1 / 12))) 1
          (fp_terminal_payoff exact_fp fp_example 1 5 (Fin (1 / 12))) = Inr V \<and>
        V ! 1 = Fin v \<and> 0 \<le> v \<and>
        fle (fp_intrinsic exact_fp fp_example 1 (Fin (1 / 12)) 1 (3 - 1)) (Fin v)"
    by blast
  show ?thesis using monotone_rounding_exact n p d f a' c by blast
qed

text \<open>
  C6 as stated fails when \<open>u\<close> overflows: at \<open>S = K = 50\<close>, \<open>t = 1\<close>, \<open>r = b = 0\<close>,
  \<open>sigma = 1000\<close>, \<open>n = 1\<close> the probability is 0 and the discount factor is 1, the exercise
  value of the upper terminal node of the put is \<open>-inf\<close>, and the terminal payoff there is
  \<open>NaN\<close>: it is not \<open>max(-inf, 0) = 0\<close> and it is not non-negative.
\<close>

theorem lattice_values_counterexample:
  "number_div overflow_fp (fp_t fp_overflow_example) (fp_n fp_overflow_example) = Inr (Fin 1) \<and>
   fp_p overflow_fp fp_overflow_example (Fin 1) = Fin 0 \<and>
   fp_Df overflow_fp fp_overflow_example (Fin 1) = Fin 1 \<and>
   fp_intrinsic overflow_fp fp_overflow_example (- 1) (Fin 1) 1 0 = NInf \<and>
   fp_terminal_payoff overflow_fp fp_overflow_example (- 1) 1 (Fin 1) ! 1 = NaN \<and>
   fmax NInf (Fin 0) = Fin 0 \<and> \<not> fle (Fin 0) NaN"
  using fp_overflow_example_p[of "''european''"] fp_overflow_example_Df[of "''european''"]
    fp_overflow_example_intrinsic(4)[of "''european''"]
    fp_overflow_example_terminal(2)[of "''european''"]
  by (simp add: fp_overflow_example_european_update fmax_def)

text \<open>
  C3, as the code has it. For \<open>sigma = 0\<close> and \<open>n \<ge> 1\<close> the probability
  \<open>p = (exp(b * dt) - d) / (u - d)\<close> is not a finite number (for \<open>t \<ge> 0\<close> it is a
  division by \<open>u - d = 0\<close>), the European price returned by \<open>call()\<close> and \<open>put()\<close> is
  \<open>NaN\<close>, and the American price returned is the undiscounted exercise value at the spot
  price, \<open>S - K\<close> for \<open>call()\<close> and \<open>K - S\<close> for \<open>put()\<close>, whatever its sign.
\<close>

theorem sigma0_prices:
  assumes "1 \<le> crr_n self" and "crr_sigma self = 0"
  shows "(\<forall>x. crr_p self (crr_n self) \<noteq> Fin x) \<and>
    crr_call (self\<lparr>crr_type := ''european''\<rparr>) = Inr (Some NaN) \<and>
    crr_put (self\<lparr>crr_type := ''european''\<rparr>) = Inr (Some NaN) \<and>
    crr_call (self\<lparr>crr_type := ''american''\<rparr>) = Inr (Some (Fin (crr_S self - crr_K self))) \<and>
    crr_put (self\<lparr>crr_type := ''american''\<rparr>) = Inr (Some (Fin (crr_K self - crr_S self)))"
proof -
  have n: "0 < crr_n self" using assms(1) by simp
  show ?thesis
    using crr_p_sigma0[OF assms(2), of "crr_n self"]
      european_sigma0[OF assms(2) n, of 1] european_sigma0[OF assms(2) n, of "- 1"]
      american_sigma0[OF assms(2) n, of 1] american_sigma0[OF assms(2) n, of "- 1"]
    by (simp add: crr_call_def crr_put_def)
qed

theorem sigma0_prices_witness:
  "1 \<le> crr_n crr_sigma0_example \<and> crr_sigma crr_sigma0_example = 0 \<and>
    crr_call (crr_sigma0_example\<lparr>crr_type := ''european''\<rparr>) = Inr (Some NaN) \<and>
    crr_put (crr_sigma0_example\<lparr>crr_type := ''european''\<rparr>) = Inr (Some NaN) \<and>
    crr_call (crr_sigma0_example\<lparr>crr_type := ''american''\<rparr>) = Inr (Some (Fin 10)) \<and>
    crr_put (crr_sigma0_example\<lparr>crr_type := ''american''\<rparr>) = Inr (Some (Fin (- 10)))"
proof -
  have h: "1 \<le> crr_n crr_sigma0_example" "crr_sigma crr_sigma0_example = 0"
    by (simp_all add: crr_sigma0_example_def)
  have v: "crr_S crr_sigma0_example - crr_K crr_sigma0_example = 10"
    "crr_K crr_sigma0_example - crr_S crr_sigma0_example = - 10"
    by (simp_all add: crr_sigma0_example_def)
  show ?thesis
    using h sigma0_prices[OF h] unfolding v by blast
qed

text \<open>
  C3 as stated fails: at \<open>S = 100\<close>, \<open>K = 90\<close>, \<open>t = 1\<close>, \<open>r = b = 0\<close>, \<open>sigma = 0\<close>,
  \<open>n = 1\<close> the discounted exercise value at the forward price is 10 and \<open>call()\<close>
  returns \<open>NaN\<close>.
\<close>

theorem sigma0_price_counterexample:
  "crr_sigma crr_sigma0_example = 0 \<and>
   crr_call crr_sigma0_example = Inr (Some NaN) \<and>
   spec_degenerate_price crr_sigma0_example 1 = 10 \<and>
   crr_call crr_sigma0_example \<noteq> Inr (Some (Fin (spec_degenerate_price crr_sigma0_example 1)))"
proof -
  have s: "crr_sigma crr_sigma0_example = 0" by (simp add: crr_sigma0_example_def)
  have "crr_call crr_sigma0_example = calc_price crr_sigma0_example 1 1 ''european''"
    by (simp add: crr_call_def crr_sigma0_example_def)
  then have c: "crr_call crr_sigma0_example = Inr (Some NaN)"
    using european_sigma0[OF s, of 1 1] by simp
  have d: "spec_degenerate_price crr_sigma0_example 1 = 10"
    by (simp add: spec_degenerate_price_def crr_sigma0_example_def)
  show ?thesis using s c d by simp
qed

text \<open>
  C10, as the code has it. For \<open>n \<noteq> 0\<close>, and for \<open>n = 0\<close> when \<open>t\<close> is a numpy float, a
  \<open>CRRBinomialTreeOption\<close> whose type string is neither \<open>european\<close> nor \<open>american\<close> returns
  \<open>None\<close> from \<open>call()\<close> and from \<open>put()\<close>; no exception is raised.
\<close>

theorem unknown_type_returns_None:
  assumes "fp_n self \<noteq> 0 \<or> (\<exists>x. fp_t self = Numpy x)"
    and "fp_type self \<noteq> ''european''" and "fp_type self \<noteq> ''american''"
  shows "call_fp P self = Inr None \<and> put_fp P self = Inr None"
  using calc_price_fp_unknown[OF assms] by (simp add: call_fp_def put_fp_def)

theorem unknown_type_returns_None_witness:
  "fp_n fp_untyped_example \<noteq> 0 \<and> fp_type fp_untyped_example \<noteq> ''european'' \<and>
   fp_type fp_untyped_example \<noteq> ''american'' \<and>
   call_fp exact_fp fp_untyped_example = Inr None \<and> put_fp exact_fp fp_untyped_example = Inr None \<and>
   fp_n fp_numpy_zero_steps_example = 0 \<and>
   fp_t fp_numpy_zero_steps_example = Numpy (5 / 12) \<and>
   fp_type fp_numpy_zero_steps_example \<noteq> ''european'' \<and>
   fp_type fp_numpy_zero_steps_example \<noteq> ''american'' \<and>
   call_fp exact_fp fp_numpy_zero_steps_example = Inr None \<and>
   put_fp exact_fp fp_numpy_zero_steps_example = Inr None"
proof -
  have h: "fp_n fp_untyped_example \<noteq> 0 \<or> (\<exists>x. fp_t fp_untyped_example = Numpy x)"
    "fp_type fp_untyped_example \<noteq> ''european''" "fp_type fp_untyped_example \<noteq> ''american''"
    by (simp_all add: fp_untyped_examples)
  have g: "fp_n fp_numpy_zero_steps_example \<noteq> 0 \<or>
      (\<exists>x. fp_t fp_numpy_zero_steps_example = Numpy x)"
    "fp_type fp_numpy_zero_steps_example \<noteq> ''european''"
    "fp_type fp_numpy_zero_steps_example \<noteq> ''american''"
    using fp_untyped_examples(4) by (blast, simp_all add: fp_untyped_examples)
  show ?thesis
    using h(2,3) g(2,3) unknown_type_returns_None[OF h, of exact_fp]
      unknown_type_returns_None[OF g, of exact_fp]
    by (simp add: fp_untyped_examples)
qed

text \<open>
  C10 as stated fails for \<open>n = 0\<close> and \<open>t\<close> a Python number: \<open>dt = self._t / n\<close> raises
  \<open>ZeroDivisionError\<close> before the type string is looked at.
\<close>

theorem unknown_type_counterexample:
  "fp_type fp_zero_steps_example \<noteq> ''european'' \<and>
   fp_type fp_zero_steps_example \<noteq> ''american'' \<and>
   fp_n fp_zero_steps_example = 0 \<and> fp_t fp_zero_steps_example = Python (5 / 12) \<and>
   call_fp exact_fp fp_zero_steps_example = Inl ZeroDivisionError \<and>
   call_fp exact_fp fp_zero_steps_example \<noteq> Inr None"
  by (simp add: fp_untyped_examples call_fp_def calc_price_fp_n0_Python[OF fp_untyped_examples(7)])

section \<open>The claims about the Monte Carlo engine\<close>






text \<open>
  C9. \<open>call()\<close> and \<open>put()\<close> return the same value (or raise the same exception) with
  \<open>trace = True\<close> as with \<open>trace = False\<close>, and leave the innovation source in the same
  state: the flag changes the printed lines only.
\<close>

theorem trace_is_observability_only:
  "outcome (mc_call (self\<lparr>mc_trace := True\<rparr>)) = outcome (mc_call (self\<lparr>mc_trace := False\<rparr>)) \<and>
   outcome (mc_put (self\<lparr>mc_trace := True\<rparr>)) = outcome (mc_put (self\<lparr>mc_trace := False\<rparr>)) \<and>
   inno (final_state (mc_call (self\<lparr>mc_trace := True\<rparr>))) =
     inno (final_state (mc_call (self\<lparr>mc_trace := False\<rparr>))) \<and>
   inno (final_state (mc_put (self\<lparr>mc_trace := True\<rparr>))) =
     inno (final_state (mc_put (self\<lparr>mc_trace := False\<rparr>)))"
  using sim_mc_trace_irrelevant[of self True "mc_Innovation self"]
    sim_mc_trace_irrelevant[of self False "mc_Innovation self"]
  by (simp only: mc_call_trace)

theorem trace_is_observability_only_witness:
  "outcome (mc_call (mc_example\<lparr>mc_trace := True\<rparr>)) =
     outcome (mc_call (mc_example\<lparr>mc_trace := False\<rparr>)) \<and>
   outcome (mc_put (mc_example\<lparr>mc_trace := True\<rparr>)) =
     outcome (mc_put (mc_example\<lparr>mc_trace := False\<rparr>))"
  using trace_is_observability_only[of mc_example] by simp




section \<open>The claim about configuration errors\<close>

text \<open>
  C2, as the code has it. Neither constructor checks its arguments and nothing raises a
  \<open>ConfigurationError\<close>. \<open>CRRBinomialTreeOption.__init__\<close> accepts every \<open>n\<close>. For \<open>n = 0\<close>,
  \<open>call()\<close> and \<open>put()\<close> raise \<open>ZeroDivisionError\<close> when \<open>t\<close> is a Python number; when \<open>t\<close> is a
  numpy float they raise nothing and, for the european and american types, return
  \<open>(abs(v) + v) / 2\<close> of the exercise value \<open>v = z * (S - K)\<close> at the spot price. For \<open>n < 0\<close>
  and the european and american types they raise \<open>IndexError\<close>. \<open>MonteCarloOption.__init__\<close>
  raises \<open>ZeroDivisionError\<close> for \<open>path_length = 0\<close> when \<open>t\<close> is a Python number; for
  \<open>path_length \<noteq> 0\<close>, or \<open>t\<close> a numpy float, it raises \<open>TypeError\<close> when \<open>Innovation\<close> is not
  supplied and succeeds otherwise, whatever \<open>mc_loops\<close>, \<open>mc_paths\<close>, \<open>Path\<close> and \<open>Payoff\<close>
  are. A run then raises \<open>ValueError\<close> for \<open>mc_loops < 0\<close>, returns the empty array for
  \<open>mc_loops = 0\<close>, and with \<open>mc_loops > 0\<close> and \<open>Path\<close> or \<open>Payoff\<close> missing raises \<open>TypeError\<close>
  in the first loop, after the innovation batch has been drawn (and, when only \<open>Payoff\<close> is
  missing, after the \<open>Path\<close> object has been built).
\<close>

theorem no_configuration_check:
  "crr_fp_init S K t r b sigma ty n =
     Inr \<lparr>fp_S = S, fp_K = K, fp_t = t, fp_r = r, fp_b = b, fp_sigma = sigma,
          fp_n = n, fp_type = ty\<rparr> \<and>
   (n = 0 \<longrightarrow> t = Python x \<longrightarrow>
      call_fp P \<lparr>fp_S = S, fp_K = K, fp_t = t, fp_r = r, fp_b = b, fp_sigma = sigma,
                 fp_n = n, fp_type = ty\<rparr> = Inl ZeroDivisionError \<and>
      put_fp P \<lparr>fp_S = S, fp_K = K, fp_t = t, fp_r = r, fp_b = b, fp_sigma = sigma,
                fp_n = n, fp_type = ty\<rparr> = Inl ZeroDivisionError) \<and>
   (n = 0 \<longrightarrow> t = Numpy x \<longrightarrow> ty = ''european'' \<or> ty = ''american'' \<longrightarrow>
      call_fp P \<lparr>fp_S = S, fp_K = K, fp_t = t, fp_r = r, fp_b = b, fp_sigma = sigma,
                 fp_n = n, fp_type = ty\<rparr> =
        Inr (Some (half_abs_sum P (fp_intrinsic P
          \<lparr>fp_S = S, fp_K = K, fp_t = t, fp_r = r, fp_b = b, fp_sigma = sigma,
           fp_n = n, fp_type = ty\<rparr> 1 (inf_of_sign x) 0 0))) \<and>
      put_fp P \<lparr>fp_S = S, fp_K = K, fp_t = t, fp_r = r, fp_b = b, fp_sigma = sigma,
                fp_n = n, fp_type = ty\<rparr> =
        Inr (Some (half_abs_sum P (fp_intrinsic P
          \<lparr>fp_S = S, fp_K = K, fp_t = t, fp_r = r, fp_b = b, fp_sigma = sigma,
           fp_n = n, fp_type = ty\<rparr> (- 1) (inf_of_sign x) 0 0)))) \<and>
   (n < 0 \<longrightarrow> ty = ''european'' \<or> ty = ''american'' \<longrightarrow>
      call_fp P \<lparr>fp_S = S, fp_K = K, fp_t = t, fp_r = r, fp_b = b, fp_sigma = sigma,
                 fp_n = n, fp_type = ty\<rparr> = Inl IndexError \<and>
      put_fp P \<lparr>fp_S = S, fp_K = K, fp_t = t, fp_r = r, fp_b = b, fp_sigma = sigma,
                fp_n = n, fp_type = ty\<rparr> = Inl IndexError) \<and>
   (path_length = 0 \<longrightarrow> t = Python x \<longrightarrow>
      mc_init P loops path_length paths S K t r b sg Innovation Path Payoff tr an sd eps =
        Inl ZeroDivisionError) \<and>
   (path_length \<noteq> 0 \<or> t = Numpy x \<longrightarrow> Innovation = None \<longrightarrow>
      mc_init P loops path_length paths S K t r b sg Innovation Path Payoff tr an sd eps =
        Inl TypeError) \<and>
   (path_length \<noteq> 0 \<or> t = Numpy x \<longrightarrow> Innovation = Some cls \<longrightarrow>
      (\<exists>obj. mc_init P loops path_length paths S K t r b sg Innovation Path Payoff tr an sd eps =
                Inr obj \<and>
             mc_loops obj = loops \<and> mc_paths obj = paths \<and> mc_path_length obj = path_length \<and>
             mc_dt obj = fl_div P (Fin (number_value t)) (Fin (of_int path_length)) \<and>
             mc_Path obj = Path \<and> mc_Payoff obj = Payoff)) \<and>
   (mc_loops self < 0 \<longrightarrow> outcome (sim_mc self call s0) = Inl ValueError) \<and>
   (mc_loops self = 0 \<longrightarrow> outcome (sim_mc self call s0) = Inr (Some (Iteration []))) \<and>
   (0 < mc_loops self \<longrightarrow> mc_Path self = None \<longrightarrow>
      outcome (sim_mc self call s0) = Inl TypeError \<and>
      inno (final_state (sim_mc self call s0)) = snd (mc_sample self s0)) \<and>
   (0 < mc_loops self \<longrightarrow> mc_Path self = Some Pa \<longrightarrow> mc_Payoff self = None \<longrightarrow>
      outcome (sim_mc self call s0) = Inl TypeError \<and>
      inno (final_state (sim_mc self call s0)) = snd (mc_sample self s0) \<and>
      length (path_calls (final_state (sim_mc self call s0))) = 1)"
proof (intro conjI impI)
  let ?obj = "\<lparr>fp_S = S, fp_K = K, fp_t = t, fp_r = r, fp_b = b, fp_sigma = sigma,
          fp_n = n, fp_type = ty\<rparr>"
  show "crr_fp_init S K t r b sigma ty n = Inr ?obj" by (simp add: crr_fp_init_def)
  show "call_fp P ?obj = Inl ZeroDivisionError" if "n = 0" "t = Python x"
    using that by (simp add: call_fp_def calc_price_fp_n0_Python)
  show "put_fp P ?obj = Inl ZeroDivisionError" if "n = 0" "t = Python x"
    using that by (simp add: put_fp_def calc_price_fp_n0_Python)
  show "call_fp P ?obj = Inr (Some (half_abs_sum P (fp_intrinsic P ?obj 1 (inf_of_sign x) 0 0)))"
    if "n = 0" "t = Numpy x" "ty = ''european'' \<or> ty = ''american''"
    using calc_price_fp_n0_Numpy[of ?obj x ty P 1] that by (simp add: call_fp_def)
  show "put_fp P ?obj = Inr (Some (half_abs_sum P (fp_intrinsic P ?obj (- 1) (inf_of_sign x) 0 0)))"
    if "n = 0" "t = Numpy x" "ty = ''european'' \<or> ty = ''american''"
    using calc_price_fp_n0_Numpy[of ?obj x ty P "- 1"] that by (simp add: put_fp_def)
  show "call_fp P ?obj = Inl IndexError" if "n < 0" "ty = ''european'' \<or> ty = ''american''"
    using calc_price_fp_negative[OF that, of P ?obj 1] by (simp add: call_fp_def)
  show "put_fp P ?obj = Inl IndexError" if "n < 0" "ty = ''european'' \<or> ty = ''american''"
    using calc_price_fp_negative[OF that, of P ?obj "- 1"] by (simp add: put_fp_def)
  show "mc_init P loops path_length paths S K t r b sg Innovation Path Payoff tr an sd eps =
        Inl ZeroDivisionError" if "path_length = 0" "t = Python x"
    using that by (simp add: mc_init_def)
  show "mc_init P loops path_length paths S K t r b sg Innovation Path Payoff tr an sd eps =
        Inl TypeError" if "path_length \<noteq> 0 \<or> t = Numpy x" "Innovation = None"
    using that(2) by (simp add: mc_init_def number_div_cases[OF that(1)])
  show "\<exists>obj. mc_init P loops path_length paths S K t r b sg Innovation Path Payoff tr an sd eps =
                Inr obj \<and>
             mc_loops obj = loops \<and> mc_paths obj = paths \<and> mc_path_length obj = path_length \<and>
             mc_dt obj = fl_div P (Fin (number_value t)) (Fin (of_int path_length)) \<and>
             mc_Path obj = Path \<and> mc_Payoff obj = Payoff"
    if "path_length \<noteq> 0 \<or> t = Numpy x" "Innovation = Some cls"
    using that(2) by (simp add: mc_init_def number_div_cases[OF that(1)])
  show "outcome (sim_mc self call s0) = Inl ValueError" if "mc_loops self < 0"
    using that by (rule sim_mc_negative)
  show "outcome (sim_mc self call s0) = Inr (Some (Iteration []))" if "mc_loops self = 0"
    using that by (rule sim_mc_zero)
  show "outcome (sim_mc self call s0) = Inl TypeError"
    and "inno (final_state (sim_mc self call s0)) = snd (mc_sample self s0)"
    if "0 < mc_loops self" "mc_Path self = None"
    using sim_mc_no_Path[OF that, of call s0] by simp_all
  show "outcome (sim_mc self call s0) = Inl TypeError"
    and "inno (final_state (sim_mc self call s0)) = snd (mc_sample self s0)"
    and "length (path_calls (final_state (sim_mc self call s0))) = 1"
    if "0 < mc_loops self" "mc_Path self = Some Pa" "mc_Payoff self = None"
    using sim_mc_no_Payoff[OF that, of call s0] by simp_all
qed

theorem no_configuration_check_witness:
  "call_fp exact_fp \<lparr>fp_S = 50, fp_K = 50, fp_t = Python 1, fp_r = 0, fp_b = 0, fp_sigma = 1,
             fp_n = 0, fp_type = ''european''\<rparr> = Inl ZeroDivisionError \<and>
   call_fp exact_fp \<lparr>fp_S = 100, fp_K = 90, fp_t = Numpy 1, fp_r = 0, fp_b = 0, fp_sigma = 1,
             fp_n = 0, fp_type = ''european''\<rparr> = Inr (Some (Fin 10)) \<and>
   call_fp exact_fp \<lparr>fp_S = 50, fp_K = 50, fp_t = Python 1, fp_r = 0, fp_b = 0, fp_sigma = 1,
             fp_n = - 1, fp_type = ''european''\<rparr> = Inl IndexError \<and>
   mc_init exact_fp 2 0 1 100 100 (Python 1) 0 0 (Some 1) (Some counting_innovations)
     (Some identity_path) (Some probe_payoff) False False False None = Inl ZeroDivisionError \<and>
   mc_init exact_fp 2 2 1 100 100 (Python 1) 0 0 (Some 1) (None :: nat innovations_class option)
     (Some identity_path) (Some probe_payoff) False False False None = Inl TypeError \<and>
   (\<exists>obj. mc_init exact_fp (- 1) 2 0 100 100 (Python 1) 0 0 (Some 1) (Some counting_innovations)
            (None :: batch path_class option) (None :: batch payoff_class option)
            False False False None = Inr obj \<and>
          mc_loops obj = - 1 \<and> mc_paths obj = 0 \<and> mc_Path obj = None \<and> mc_Payoff obj = None) \<and>
   (\<exists>obj. mc_init exact_fp 2 0 1 100 100 (Numpy 1) 0 0 (Some 1) (Some counting_innovations)
            (Some identity_path) (Some probe_payoff) False False False None = Inr obj \<and>
          mc_path_length obj = 0 \<and> mc_dt obj = PInf) \<and>
   outcome (sim_mc (mc_example\<lparr>mc_loops := - 1\<rparr>) True 0) = Inl ValueError \<and>
   outcome (sim_mc (mc_example\<lparr>mc_loops := 0\<rparr>) True 0) = Inr (Some (Iteration [])) \<and>
   outcome (sim_mc (mc_example\<lparr>mc_Path := None\<rparr>) True 0) = Inl TypeError \<and>
   inno (final_state (sim_mc (mc_example\<lparr>mc_Path := None\<rparr>) True 0)) = 1 \<and>
   outcome (sim_mc (mc_example\<lparr>mc_Payoff := None\<rparr>) True 0) = Inl TypeError \<and>
   length (path_calls (final_state (sim_mc (mc_example\<lparr>mc_Payoff := None\<rparr>) True 0))) = 1"
proof -
  have a: "call_fp exact_fp \<lparr>fp_S = 50, fp_K = 50, fp_t = Python 1, fp_r = 0, fp_b = 0, fp_sigma = 1,
             fp_n = 0, fp_type = ''european''\<rparr> = Inl ZeroDivisionError"
    using no_configuration_check[where n = 0 and S = 50 and K = 50 and t = "Python 1" and x = 1
        and r = 0 and b = 0 and sigma = 1 and ty = "''european''" and P = exact_fp,
        THEN conjunct2, THEN conjunct1]
    by simp
  have a2: "call_fp exact_fp \<lparr>fp_S = 100, fp_K = 90, fp_t = Numpy 1, fp_r = 0, fp_b = 0, fp_sigma = 1,
             fp_n = 0, fp_type = ''european''\<rparr> = Inr (Some (Fin 10))"
    using no_configuration_check[where n = 0 and S = 100 and K = 90 and t = "Numpy 1" and x = 1
        and r = 0 and b = 0 and sigma = 1 and ty = "''european''" and P = exact_fp,
        THEN conjunct2, THEN conjunct2, THEN conjunct1]
    by (simp add: half_abs_sum_def fp_intrinsic_def fsub_def)
  have b: "call_fp exact_fp \<lparr>fp_S = 50, fp_K = 50, fp_t = Python 1, fp_r = 0, fp_b = 0, fp_sigma = 1,
             fp_n = - 1, fp_type = ''european''\<rparr> = Inl IndexError"
    using no_configuration_check[where n = "- 1" and S = 50 and K = 50 and t = "Python 1"
        and r = 0 and b = 0 and sigma = 1 and ty = "''european''" and P = exact_fp,
        THEN conjunct2, THEN conjunct2, THEN conjunct2, THEN conjunct1]
    by simp
  have c: "mc_init exact_fp 2 0 1 100 100 (Python 1) 0 0 (Some 1) (Some counting_innovations)
     (Some identity_path) (Some probe_payoff) False False False None = Inl ZeroDivisionError"
    using no_configuration_check[where path_length = 0 and loops = 2 and paths = 1
        and S = 100 and K = 100 and t = "Python 1" and x = 1 and r = 0 and b = 0 and sg = "Some 1"
        and Innovation = "Some counting_innovations" and Path = "Some identity_path"
        and Payoff = "Some probe_payoff" and tr = False and an = False and sd = False
        and eps = None and P = exact_fp,
        THEN conjunct2, THEN conjunct2, THEN conjunct2, THEN conjunct2, THEN conjunct1]
    by simp
  have d: "mc_init exact_fp 2 2 1 100 100 (Python 1) 0 0 (Some 1) (None :: nat innovations_class option)
     (Some identity_path) (Some probe_payoff) False False False None = Inl TypeError"
    using no_configuration_check[where path_length = 2 and loops = 2 and paths = 1
        and S = 100 and K = 100 and t = "Python 1" and r = 0 and b = 0 and sg = "Some 1"
        and Innovation = "None :: nat innovations_class option" and Path = "Some identity_path"
        and Payoff = "Some probe_payoff" and tr = False and an = False and sd = False
        and eps = None and P = exact_fp,
        THEN conjunct2, THEN conjunct2, THEN conjunct2, THEN conjunct2, THEN conjunct2, THEN conjunct1]
    by simp
  have e: "\<exists>obj. mc_init exact_fp (- 1) 2 0 100 100 (Python 1) 0 0 (Some 1) (Some counting_innovations)
            (None :: batch path_class option) (None :: batch payoff_class option)
            False False False None = Inr obj \<and>
          mc_loops obj = - 1 \<and> mc_paths obj = 0 \<and> mc_Path obj = None \<and> mc_Payoff obj = None"
    using no_configuration_check[where path_length = 2 and loops = "- 1" and paths = 0
        and S = 100 and K = 100 and t = "Python 1" and r = 0 and b = 0 and sg = "Some 1"
        and Innovation = "Some counting_innovations" and cls = counting_innovations
        and Path = "None :: batch path_class option"
        and Payoff = "None :: batch payoff_class option" and tr = False and an = False
        and sd = False and eps = None and P = exact_fp,
        THEN conjunct2, THEN conjunct2, THEN conjunct2, THEN conjunct2, THEN conjunct2, THEN conjunct2, THEN conjunct1]
    by auto
  have e2: "\<exists>obj. mc_init exact_fp 2 0 1 100 100 (Numpy 1) 0 0 (Some 1) (Some counting_innovations)
            (Some identity_path) (Some probe_payoff) False False False None = Inr obj \<and>
          mc_path_length obj = 0 \<and> mc_dt obj = PInf"
    using no_configuration_check[where path_length = 0 and loops = 2 and paths = 1
        and S = 100 and K = 100 and t = "Numpy 1" and x = 1 and r = 0 and b = 0 and sg = "Some 1"
        and Innovation = "Some counting_innovations" and cls = counting_innovations
        and Path = "Some identity_path"
        and Payoff = "Some probe_payoff" and tr = False and an = False
        and sd = False and eps = None and P = exact_fp,
        THEN conjunct2, THEN conjunct2, THEN conjunct2, THEN conjunct2, THEN conjunct2, THEN conjunct2, THEN conjunct1]
    by (auto simp: inf_of_sign_def)
  have l: "mc_loops (mc_example\<lparr>mc_loops := - 1\<rparr>) < 0" "mc_loops (mc_example\<lparr>mc_loops := 0\<rparr>) = 0"
    "0 < mc_loops (mc_example\<lparr>mc_Path := None\<rparr>)" "mc_Path (mc_example\<lparr>mc_Path := None\<rparr>) = None"
    "0 < mc_loops (mc_example\<lparr>mc_Payoff := None\<rparr>)"
    "mc_Path (mc_example\<lparr>mc_Payoff := None\<rparr>) = Some identity_path"
    "mc_Payoff (mc_example\<lparr>mc_Payoff := None\<rparr>) = None"
    "snd (mc_sample (mc_example\<lparr>mc_Path := None\<rparr>) 0) = 1"
    by (simp_all add: mc_example_def counting_innovations_def)
  have f: "outcome (sim_mc (mc_example\<lparr>mc_loops := - 1\<rparr>) True 0) = Inl ValueError"
    by (rule no_configuration_check[where self = "mc_example\<lparr>mc_loops := - 1\<rparr>",
        THEN conjunct2, THEN conjunct2, THEN conjunct2, THEN conjunct2, THEN conjunct2, THEN conjunct2, THEN conjunct2, THEN conjunct1, THEN mp, OF l(1)])
  have g: "outcome (sim_mc (mc_example\<lparr>mc_loops := 0\<rparr>) True 0) = Inr (Some (Iteration []))"
    by (rule no_configuration_check[where self = "mc_example\<lparr>mc_loops := 0\<rparr>",
        THEN conjunct2, THEN conjunct2, THEN conjunct2, THEN conjunct2, THEN conjunct2, THEN conjunct2, THEN conjunct2, THEN conjunct2, THEN conjunct1, THEN mp, OF l(2)])
  have h: "outcome (sim_mc (mc_example\<lparr>mc_Path := None\<rparr>) True 0) = Inl TypeError \<and>
      inno (final_state (sim_mc (mc_example\<lparr>mc_Path := None\<rparr>) True 0)) = 1"
    using no_configuration_check[where self = "mc_example\<lparr>mc_Path := None\<rparr>"
        and call = True and ?s0.0 = 0,
        THEN conjunct2, THEN conjunct2, THEN conjunct2, THEN conjunct2, THEN conjunct2, THEN conjunct2, THEN conjunct2, THEN conjunct2, THEN conjunct2, THEN conjunct1, THEN mp, THEN mp, OF l(3) l(4)]
    by (simp only: l(8))
  have i: "outcome (sim_mc (mc_example\<lparr>mc_Payoff := None\<rparr>) True 0) = Inl TypeError \<and>
      length (path_calls (final_state (sim_mc (mc_example\<lparr>mc_Payoff := None\<rparr>) True 0))) = 1"
    using no_configuration_check[where self = "mc_example\<lparr>mc_Payoff := None\<rparr>"
        and call = True and ?s0.0 = 0 and Pa = identity_path,
        THEN conjunct2, THEN conjunct2, THEN conjunct2, THEN conjunct2, THEN conjunct2, THEN conjunct2, THEN conjunct2, THEN conjunct2, THEN conjunct2, THEN conjunct2, THEN mp, THEN mp, THEN mp, OF l(5) l(6) l(7)]
    by simp
  show ?thesis
    by (intro conjI a a2 b c d e e2 f g h[THEN conjunct1] h[THEN conjunct2] i[THEN conjunct1]
        i[THEN conjunct2])
qed

text \<open>
  C2 as stated fails: with \<open>n = 0\<close> the constructor returns the object, and \<open>call()\<close> raises
  \<open>ZeroDivisionError\<close> for a Python number \<open>t\<close>, and returns a price for a numpy float \<open>t\<close>;
  in neither case a \<open>ConfigurationError\<close>.
\<close>

theorem no_configuration_check_counterexample:
  "crr_fp_init 50 50 (Python 1) 0 0 1 ''european'' 0 =
     Inr \<lparr>fp_S = 50, fp_K = 50, fp_t = Python 1, fp_r = 0, fp_b = 0, fp_sigma = 1,
          fp_n = 0, fp_type = ''european''\<rparr> \<and>
   crr_fp_init 50 50 (Python 1) 0 0 1 ''european'' 0 \<noteq> Inl ConfigurationError \<and>
   call_fp exact_fp \<lparr>fp_S = 50, fp_K = 50, fp_t = Python 1, fp_r = 0, fp_b = 0, fp_sigma = 1,
             fp_n = 0, fp_type = ''european''\<rparr> = Inl ZeroDivisionError \<and>
   call_fp exact_fp \<lparr>fp_S = 50, fp_K = 50, fp_t = Python 1, fp_r = 0, fp_b = 0, fp_sigma = 1,
             fp_n = 0, fp_type = ''european''\<rparr> \<noteq> Inl ConfigurationError \<and>
   call_fp exact_fp \<lparr>fp_S = 100, fp_K = 90, fp_t = Numpy 1, fp_r = 0, fp_b = 0, fp_sigma = 1,
             fp_n = 0, fp_type = ''european''\<rparr> = Inr (Some (Fin 10))"
  by (simp add: crr_fp_init_def call_fp_def calc_price_fp_n0_Python calc_price_fp_n0_Numpy
      half_abs_sum_def fp_intrinsic_def fsub_def)

end
